theory Spec2Isabelle
  imports Main "HOL-Library.Word" "HOL-Library.AList"
begin

section \<open>Data model of the rebalancer (rebalancer.go)\<close>

type_synonym u64 = "64 word"
type_synonym i64 = "64 word"
type_synonym bytes = "8 word list"

text \<open>Errors are values. \<open>Errorf_w\<close> is the error built by \<open>fmt.Errorf("...: %w", err)\<close>:
  a message context (kept here as the formatted fields) wrapping another error.\<close>

record member =
  member_Name :: string
  member_ID :: u64
  member_Birthdate :: i64

datatype error =
    ErrKeyNotFound
  | ErrFragmented
  | ErrInvalidArgument
  | ErrOther nat
  | Errorf_w u64 bool member error

fun errors_Is :: "error \<Rightarrow> error \<Rightarrow> bool" where
  "errors_Is (Errorf_w p b t e) target = (Errorf_w p b t e = target \<or> errors_Is e target)"
| "errors_Is e target = (e = target)"

text \<open>Modelled from the spec: an entry is an opaque per-key record with a numeric
  timestamp used for conflict resolution; \<open>storage.Entry\<close> itself is not part of the source.\<close>

record entry =
  entry_Timestamp :: i64
  entry_Value :: bytes

text \<open>\<open>version\<close> as built in \<open>selectVersionForMerge\<close>: only its \<open>entry\<close> field is set.\<close>

record version =
  version_entry :: entry

text \<open>A Go map that the code iterates is an association list in the order of the iteration.\<close>

type_synonym accesslog = "(u64 \<times> i64) list"

record dmapbox =
  PartID :: u64
  Backup :: bool
  Name :: string
  Payload :: bytes
  AccessLog :: "accesslog option"

record cache =
  accessLog :: "accesslog option"

record 's dmap =
  storage :: 's
  cache :: "cache option"

record 's partition =
  part_id :: u64
  part_backup :: bool
  part_m :: "(string \<times> 's dmap) list"
  part_owners :: "member list"

datatype opcode = OpMoveDMap

record message =
  msg_op :: opcode
  msg_value :: bytes

datatype response = StatusOK | ErrorResponse error

text \<open>One line of the level-2 log written before each move:
  \<open>Moving DMap: name (backup: b) on PartID: p to owner\<close>.\<close>

record moveline =
  moved_name :: string
  moved_backup :: bool
  moved_partID :: u64
  moved_to :: member

text \<open>The collaborators and the configuration of a node. None of them is defined in the
  source: the storage engine (\<open>dm.storage.Get\<close>, \<open>Put\<close>, \<open>Len\<close>, \<open>Export\<close>, \<open>Range\<close>,
  \<open>storage.Import\<close>), \<open>sortVersions\<close>, the creation of a fresh DataMap inside
  \<open>getOrCreateDMap\<close>, msgpack, the transport, the member comparators, discovery, and what
  the node observes of its surroundings at each moment of a logical clock
  (\<open>isOperable\<close>, \<open>isAlive\<close>, the atomic \<open>routingSignature\<close>).\<close>

record 's env =
  storageGet :: "'s \<Rightarrow> u64 \<Rightarrow> error + entry"
  storagePut :: "'s \<Rightarrow> u64 \<Rightarrow> entry \<Rightarrow> error option \<times> 's"
  storageLen :: "'s \<Rightarrow> nat"
  storageRange :: "'s \<Rightarrow> (u64 \<times> entry) list"
  storageExport :: "'s \<Rightarrow> error + bytes"
  storageImport :: "bytes \<Rightarrow> error + 's"
  sortVersions :: "version list \<Rightarrow> version list"
  createDMap :: "string \<Rightarrow> error + 's dmap"
  msgpackMarshal :: "dmapbox \<Rightarrow> error + bytes"
  msgpackUnmarshal :: "bytes \<Rightarrow> error + dmapbox"
  requestTo :: "string \<Rightarrow> message \<Rightarrow> error + message"
  memberString :: "member \<Rightarrow> string"
  cmpMembersByID :: "member \<Rightarrow> member \<Rightarrow> bool"
  cmpMembersByName :: "member \<Rightarrow> member \<Rightarrow> bool"
  FindMemberByID :: "u64 \<Rightarrow> error + member"
  isOperable :: "nat \<Rightarrow> error option"
  isAlive :: "nat \<Rightarrow> bool"
  routingSignature :: "nat \<Rightarrow> u64"
  this :: member
  PartitionCount :: u64
  ReplicaCount :: int
  MinimumReplicaCount :: int

text \<open>The mutable state of the node: both partition tables, the logical clock (the number
  of observations of the surroundings made so far), the move lines logged, and the number of
  compaction tasks added to the wait group.\<close>

record 's olric =
  partitions :: "u64 \<rightharpoonup> 's partition"
  backups :: "u64 \<rightharpoonup> 's partition"
  clock :: nat
  logged :: "moveline list"
  wg :: nat

section \<open>The backup pass: which owners receive the maps\<close>

text \<open>Lines 208-220. \<open>offset\<close> and \<open>i\<close> are Go \<open>int\<close>s (the lengths and the replica count
  are far from the 64-bit limits, so the arithmetic is on \<open>int\<close>). \<open>owners[i]\<close> outside
  \<open>0 \<le> i < len(owners)\<close> is a runtime panic: the result \<open>None\<close>.\<close>

function collectIds :: "'s env \<Rightarrow> member list \<Rightarrow> int \<Rightarrow> int \<Rightarrow> u64 list \<Rightarrow> u64 list option" where
  "collectIds env ownrs offset i ids =
     (if i > offset then
        (if 0 \<le> i \<and> i < int (length ownrs) then
           (let owner = ownrs ! nat i in
            if cmpMembersByName env (this env) owner
            then collectIds env ownrs offset (i - 1) ids
            else collectIds env ownrs offset (i - 1) (ids @ [member_ID owner]))
         else None)
      else Some ids)"
  by pat_completeness auto
termination
  by (relation "measure (\<lambda>(env, ownrs, offset, i, ids). nat (i + 1))") auto

definition backupIds :: "'s env \<Rightarrow> member list \<Rightarrow> u64 list option" where
  "backupIds env ownrs =
     (let offset = int (length ownrs) - 1 - (ReplicaCount env - 1)
      in collectIds env ownrs offset (int (length ownrs) - 1) [])"

section \<open>The receiver: \<open>moveDMapOperation\<close> and \<open>mergeDMaps\<close>\<close>

text \<open>\<open>selectVersionForMerge\<close> (lines 77-88). The outer \<open>option\<close> is the runtime panic of
  \<open>versions[0]\<close> on an empty slice.\<close>

definition selectVersionForMerge :: "'s env \<Rightarrow> 's \<Rightarrow> u64 \<Rightarrow> entry \<Rightarrow> (error + entry) option" where
  "selectVersionForMerge env s hkey ent =
     (case storageGet env s hkey of
        Inl err \<Rightarrow> (if err = ErrKeyNotFound then Some (Inr ent) else Some (Inl err))
      | Inr current \<Rightarrow>
          (case sortVersions env [\<lparr>version_entry = current\<rparr>, \<lparr>version_entry = ent\<rparr>] of
             [] \<Rightarrow> None
           | v # vs \<Rightarrow> Some (Inr (version_entry v))))"

text \<open>Modelled from the spec: \<open>getOrCreateDMap\<close> locates the DataMap under the partition's
  map table or creates it; the function is not part of the source. A map it creates is
  registered by the deferred \<open>part.m.Store\<close> of \<open>mergeDMaps\<close>.\<close>

definition getOrCreateDMap :: "'s env \<Rightarrow> 's partition \<Rightarrow> string \<Rightarrow> error + 's dmap" where
  "getOrCreateDMap env part name =
     (case map_of (part_m part) name of
        Some dm \<Rightarrow> Inr dm
      | None \<Rightarrow> createDMap env name)"

text \<open>The loop of lines 109-113 over the incoming access log: a pair is inserted only when
  its hkey is not in the local log.\<close>

fun mergeAccessLog :: "accesslog \<Rightarrow> accesslog \<Rightarrow> accesslog" where
  "mergeAccessLog loc [] = loc"
| "mergeAccessLog loc ((hkey, t) # rest) =
     (case map_of loc hkey of
        None \<Rightarrow> mergeAccessLog (AList.update hkey t loc) rest
      | Some _ \<Rightarrow> mergeAccessLog loc rest)"

text \<open>Lines 106-115: the merge runs only when the DataMap has a cache with an access log.
  Ranging over a nil map of the payload visits nothing.\<close>

definition mergeCache :: "cache option \<Rightarrow> accesslog option \<Rightarrow> cache option" where
  "mergeCache c incoming =
     (case c of
        None \<Rightarrow> None
      | Some ch \<Rightarrow>
          (case accessLog ch of
             None \<Rightarrow> Some ch
           | Some loc \<Rightarrow>
               Some (ch\<lparr>accessLog := Some (mergeAccessLog loc (case incoming of None \<Rightarrow> [] | Some l \<Rightarrow> l))\<rparr>)))"

text \<open>The visitor of \<open>str.Range\<close> (lines 126-142), run over the entries in the order the
  range visits them. The state is the local storage and the wait-group counter; the result
  is \<open>mergeErr\<close> with the state reached. \<open>go db.compactTables(dm)\<close> is counted in the
  wait group and not run here.\<close>

fun mergeRange :: "'s env \<Rightarrow> (u64 \<times> entry) list \<Rightarrow> 's \<Rightarrow> nat \<Rightarrow> (error option \<times> 's \<times> nat) option" where
  "mergeRange env [] s n = Some (None, s, n)"
| "mergeRange env ((hkey, ent) # rest) s n =
     (case selectVersionForMerge env s hkey ent of
        None \<Rightarrow> None
      | Some (Inl err) \<Rightarrow> Some (Some err, s, n)
      | Some (Inr winner) \<Rightarrow>
          (let (mergeErr, s') = storagePut env s hkey winner;
               (mergeErr', n') = (if mergeErr = Some ErrFragmented then (None, n + 1) else (mergeErr, n))
           in if mergeErr' \<noteq> None then Some (mergeErr', s', n')
              else mergeRange env rest s' n'))"

text \<open>\<open>mergeDMaps\<close> (lines 90-144). The locks are not modelled: the function runs alone.
  The deferred \<open>part.m.Store(data.Name, dm)\<close> runs on every return after
  \<open>getOrCreateDMap\<close> succeeded, with \<open>dm\<close> as mutated so far.\<close>

definition store_dm :: "'s partition \<Rightarrow> string \<Rightarrow> 's dmap \<Rightarrow> 's partition" where
  "store_dm part name dm = part\<lparr>part_m := AList.update name dm (part_m part)\<rparr>"

definition mergeDMaps :: "'s env \<Rightarrow> 's partition \<Rightarrow> dmapbox \<Rightarrow> nat \<Rightarrow> (error option \<times> 's partition \<times> nat) option" where
  "mergeDMaps env part data n =
     (case getOrCreateDMap env part (Name data) of
        Inl err \<Rightarrow> Some (Some err, part, n)
      | Inr dm \<Rightarrow>
          (case storageImport env (Payload data) of
             Inl err \<Rightarrow> Some (Some err, store_dm part (Name data) dm, n)
           | Inr str \<Rightarrow>
               (let dm1 = dm\<lparr>cache := mergeCache (cache dm) (AccessLog data)\<rparr>
                in if storageLen env (storage dm1) = 0
                   then Some (None, store_dm part (Name data) (dm1\<lparr>storage := str\<rparr>), n)
                   else (case mergeRange env (storageRange env str) (storage dm1) n of
                           None \<Rightarrow> None
                         | Some (mergeErr, s', n') \<Rightarrow>
                             Some (mergeErr, store_dm part (Name data) (dm1\<lparr>storage := s'\<rparr>), n')))))"

text \<open>\<open>checkOwnership\<close> (lines 269-277).\<close>

fun ownersContain :: "'s env \<Rightarrow> member list \<Rightarrow> bool" where
  "ownersContain env [] = False"
| "ownersContain env (owner # rest) =
     (if cmpMembersByID env owner (this env) then True else ownersContain env rest)"

definition checkOwnership :: "'s env \<Rightarrow> 's partition \<Rightarrow> bool" where
  "checkOwnership env part = ownersContain env (part_owners part)"

text \<open>\<open>moveDMapOperation\<close> (lines 279-320). The result is the response written to \<open>w\<close> and
  the state; \<open>None\<close> is a runtime panic (no partition under \<open>box.PartID\<close>, or a panic of the
  merge). Each call of \<open>isOperable\<close> is one observation of the clock.\<close>

definition tick :: "'s olric \<Rightarrow> 's olric" where
  "tick db = db\<lparr>clock := clock db + 1\<rparr>"

definition referencedPartition :: "'s olric \<Rightarrow> dmapbox \<Rightarrow> 's partition option" where
  "referencedPartition db box =
     (if Backup box then backups db (PartID box) else partitions db (PartID box))"

definition moveDMapOperation :: "'s env \<Rightarrow> 's olric \<Rightarrow> message \<Rightarrow> (response \<times> 's olric) option" where
  "moveDMapOperation env db req =
     (let db1 = tick db in
      case isOperable env (clock db) of
        Some err \<Rightarrow> Some (ErrorResponse err, db1)
      | None \<Rightarrow>
          (case msgpackUnmarshal env (msg_value req) of
             Inl err \<Rightarrow> Some (ErrorResponse err, db1)
           | Inr box \<Rightarrow>
               (case referencedPartition db1 box of
                  None \<Rightarrow> None
                | Some part \<Rightarrow>
                    if \<not> checkOwnership env part
                    then Some (ErrorResponse (Errorf_w (PartID box) (Backup box) (this env) ErrInvalidArgument), db1)
                    else (case mergeDMaps env part box (wg db1) of
                            None \<Rightarrow> None
                          | Some (err, part', n') \<Rightarrow>
                              (let db2 = (if Backup box
                                          then db1\<lparr>backups := (backups db1)(PartID box \<mapsto> part'), wg := n'\<rparr>
                                          else db1\<lparr>partitions := (partitions db1)(PartID box \<mapsto> part'), wg := n'\<rparr>)
                               in case err of
                                    Some e \<Rightarrow> Some (ErrorResponse e, db2)
                                  | None \<Rightarrow> Some (StatusOK, db2))))))"

section \<open>The sender: \<open>moveDMap\<close>\<close>

text \<open>\<open>moveDMap\<close> (lines 42-75): export, pack, send, and delete the map once the peer has
  answered without an error. The result is the error returned and the partition.\<close>

definition packAccessLog :: "'s dmap \<Rightarrow> accesslog option" where
  "packAccessLog dm =
     (case cache dm of
        None \<Rightarrow> None
      | Some ch \<Rightarrow> (case accessLog ch of None \<Rightarrow> None | Some l \<Rightarrow> Some l))"

text \<open>The \<open>dmapbox\<close> of lines 50-59: the access log is packed when the DataMap has one.\<close>

definition newBox :: "'s partition \<Rightarrow> string \<Rightarrow> 's dmap \<Rightarrow> bytes \<Rightarrow> dmapbox" where
  "newBox part name dm payload =
     \<lparr>PartID = part_id part, Backup = part_backup part, Name = name,
      Payload = payload, AccessLog = packAccessLog dm\<rparr>"

definition moveDMap :: "'s env \<Rightarrow> 's partition \<Rightarrow> string \<Rightarrow> 's dmap \<Rightarrow> member \<Rightarrow> error option \<times> 's partition" where
  "moveDMap env part name dm owner =
     (case storageExport env (storage dm) of
        Inl err \<Rightarrow> (Some err, part)
      | Inr payload \<Rightarrow>
          (let data = newBox part name dm payload
           in case msgpackMarshal env data of
                Inl err \<Rightarrow> (Some err, part)
              | Inr val \<Rightarrow>
                  (case requestTo env (memberString env owner) \<lparr>msg_op = OpMoveDMap, msg_value = val\<rparr> of
                     Inl err \<Rightarrow> (Some err, part)
                   | Inr _ \<Rightarrow> (None, part\<lparr>part_m := AList.delete name (part_m part)\<rparr>))))"

section \<open>The rebalancer passes\<close>

text \<open>The visitor of \<open>part.m.Range\<close> (lines 175-185 and 240-250), run over the maps the
  range visits: log the move, call \<open>moveDMap\<close>, then load the routing signature; the
  iteration continues only while it equals \<open>rsign\<close>.\<close>

fun moveMaps :: "'s env \<Rightarrow> u64 \<Rightarrow> u64 \<Rightarrow> member \<Rightarrow> (string \<times> 's dmap) list
    \<Rightarrow> 's partition \<times> 's olric \<Rightarrow> 's partition \<times> 's olric" where
  "moveMaps env rsign partID owner [] (part, db) = (part, db)"
| "moveMaps env rsign partID owner ((name, dm) # rest) (part, db) =
     (let db1 = db\<lparr>logged := logged db @
                   [\<lparr>moved_name = name, moved_backup = part_backup part,
                     moved_partID = partID, moved_to = owner\<rparr>]\<rparr>;
          (err, part') = moveDMap env part name dm owner;
          db2 = tick db1
      in if rsign = routingSignature env (clock db1)
         then moveMaps env rsign partID owner rest (part', db2)
         else (part', db2))"

text \<open>Modelled from the spec: \<open>part.owner()\<close> is \<open>owners()[0]\<close> and \<open>part.length()\<close> the
  number of maps resident; neither is part of the source. An empty owners list is a panic.\<close>

definition part_owner :: "'s partition \<Rightarrow> member option" where
  "part_owner part = (case part_owners part of [] \<Rightarrow> None | x # _ \<Rightarrow> Some x)"

definition part_length :: "'s partition \<Rightarrow> nat" where
  "part_length part = length (part_m part)"

text \<open>\<open>rebalancePrimaryPartitions\<close> (lines 146-187): the loop over \<open>partID\<close>, and the
  function that snapshots \<open>rsign\<close> first. \<open>None\<close> is a runtime panic.\<close>

function rebalancePrimaryLoop :: "'s env \<Rightarrow> u64 \<Rightarrow> u64 \<Rightarrow> 's olric \<Rightarrow> 's olric option" where
  "rebalancePrimaryLoop env rsign partID db =
     (if partID < PartitionCount env then
        (if \<not> isAlive env (clock db) then Some (tick db)
         else if rsign \<noteq> routingSignature env (clock (tick db)) then Some (tick (tick db))
         else
           (case partitions db partID of
              None \<Rightarrow> None
            | Some part \<Rightarrow>
                if part_length part = 0 then rebalancePrimaryLoop env rsign (partID + 1) (tick (tick db))
                else
                  (case part_owner part of
                     None \<Rightarrow> None
                   | Some owner \<Rightarrow>
                       if cmpMembersByName env owner (this env)
                       then rebalancePrimaryLoop env rsign (partID + 1) (tick (tick db))
                       else
                         (case moveMaps env rsign partID owner (part_m part) (part, tick (tick db)) of
                            (part', db3) \<Rightarrow>
                              rebalancePrimaryLoop env rsign (partID + 1)
                                (db3\<lparr>partitions := (partitions db3)(partID \<mapsto> part')\<rparr>)))))
      else Some db)"
  by pat_completeness auto
termination
  by (relation "measure (\<lambda>(env, rsign, partID, db). unat (PartitionCount env) - unat partID)")
     (simp, (simp, unat_arith)+)

definition rebalancePrimaryPartitions :: "'s env \<Rightarrow> 's olric \<Rightarrow> 's olric option" where
  "rebalancePrimaryPartitions env db =
     rebalancePrimaryLoop env (routingSignature env (clock db)) 0 (tick db)"

text \<open>The loop over the recorded ids (lines 222-251).\<close>

fun moveToIds :: "'s env \<Rightarrow> u64 \<Rightarrow> u64 \<Rightarrow> u64 list \<Rightarrow> 's partition \<times> 's olric \<Rightarrow> 's partition \<times> 's olric" where
  "moveToIds env rsign partID [] (part, db) = (part, db)"
| "moveToIds env rsign partID (i # rest) (part, db) =
     (if \<not> isAlive env (clock db) then (part, tick db)
      else if rsign \<noteq> routingSignature env (clock (tick db)) then (part, tick (tick db))
      else
        (case FindMemberByID env i of
           Inl err \<Rightarrow> moveToIds env rsign partID rest (part, tick (tick db))
         | Inr owner \<Rightarrow>
             moveToIds env rsign partID rest
               (moveMaps env rsign partID owner (part_m part) (part, tick (tick db)))))"

text \<open>\<open>rebalanceBackupPartitions\<close> (lines 189-253).\<close>

function rebalanceBackupLoop :: "'s env \<Rightarrow> u64 \<Rightarrow> u64 \<Rightarrow> 's olric \<Rightarrow> 's olric option" where
  "rebalanceBackupLoop env rsign partID db =
     (if partID < PartitionCount env then
        (if \<not> isAlive env (clock db) then Some (tick db)
         else
           (case backups db partID of
              None \<Rightarrow> None
            | Some part \<Rightarrow>
                if part_length part = 0 then rebalanceBackupLoop env rsign (partID + 1) (tick db)
                else if int (length (part_owners part)) = ReplicaCount env - 1
                then rebalanceBackupLoop env rsign (partID + 1) (tick db)
                else
                  (case backupIds env (part_owners part) of
                     None \<Rightarrow> None
                   | Some ids \<Rightarrow>
                       (case moveToIds env rsign partID ids (part, tick db) of
                          (part', db2) \<Rightarrow>
                            rebalanceBackupLoop env rsign (partID + 1)
                              (db2\<lparr>backups := (backups db2)(partID \<mapsto> part')\<rparr>)))))
      else Some db)"
  by pat_completeness auto
termination
  by (relation "measure (\<lambda>(env, rsign, partID, db). unat (PartitionCount env) - unat partID)")
     (simp, (simp, unat_arith)+)

definition rebalanceBackupPartitions :: "'s env \<Rightarrow> 's olric \<Rightarrow> 's olric option" where
  "rebalanceBackupPartitions env db =
     rebalanceBackupLoop env (routingSignature env (clock db)) 0 (tick db)"

text \<open>\<open>rebalancer\<close> (lines 255-267); the mutex is not modelled.\<close>

definition rebalancer :: "'s env \<Rightarrow> 's olric \<Rightarrow> 's olric option" where
  "rebalancer env db =
     (case isOperable env (clock db) of
        Some err \<Rightarrow> Some (tick db)
      | None \<Rightarrow>
          (case rebalancePrimaryPartitions env (tick db) of
             None \<Rightarrow> None
           | Some db1 \<Rightarrow>
               if ReplicaCount env > MinimumReplicaCount env
               then rebalanceBackupPartitions env db1
               else Some db1))"

section \<open>A small node to run the model on\<close>

text \<open>A storage engine kept as an association list, with one-byte keys and timestamps on
  the wire; \<open>sortVersions\<close> puts the later timestamp first and, on a tie, the second
  version. The theorems below hold for every environment; this one is used to evaluate them
  on concrete inputs.\<close>

type_synonym frag = "(u64 \<times> entry) list"

fun decodeFrag :: "bytes \<Rightarrow> error + frag" where
  "decodeFrag [] = Inr []"
| "decodeFrag [x] = Inl (ErrOther 1)"
| "decodeFrag (k # t # rest) =
     (case decodeFrag rest of
        Inl err \<Rightarrow> Inl err
      | Inr s \<Rightarrow> Inr (AList.update (ucast k) \<lparr>entry_Timestamp = ucast t, entry_Value = []\<rparr> s))"

definition encodeFrag :: "frag \<Rightarrow> bytes" where
  "encodeFrag s = concat (map (\<lambda>(k, e). [ucast k, ucast (entry_Timestamp e)]) s)"

definition sortTwo :: "version list \<Rightarrow> version list" where
  "sortTwo vs =
     (case vs of
        [a, b] \<Rightarrow>
          if sint (entry_Timestamp (version_entry a)) \<le> sint (entry_Timestamp (version_entry b))
          then [b, a] else [a, b]
      | _ \<Rightarrow> vs)"

definition node :: "string \<Rightarrow> u64 \<Rightarrow> member" where
  "node nm i = \<lparr>member_Name = nm, member_ID = i, member_Birthdate = i\<rparr>"

definition exampleEnv :: "frag env" where
  "exampleEnv =
     \<lparr>storageGet = (\<lambda>s k. case map_of s k of None \<Rightarrow> Inl ErrKeyNotFound | Some e \<Rightarrow> Inr e),
      storagePut = (\<lambda>s k e. (None, AList.update k e s)),
      storageLen = (\<lambda>s. length (AList.clearjunk s)),
      storageRange = AList.clearjunk,
      storageExport = (\<lambda>s. Inr (encodeFrag s)),
      storageImport = decodeFrag,
      sortVersions = sortTwo,
      createDMap = (\<lambda>name. Inr \<lparr>storage = [], cache = Some \<lparr>accessLog = Some []\<rparr>\<rparr>),
      msgpackMarshal = (\<lambda>box. Inr (Payload box)),
      msgpackUnmarshal = (\<lambda>b. Inr \<lparr>PartID = 0, Backup = False, Name = ''m'', Payload = b, AccessLog = None\<rparr>),
      requestTo = (\<lambda>addr req. Inr req),
      memberString = member_Name,
      cmpMembersByID = (\<lambda>a b. member_ID a = member_ID b),
      cmpMembersByName = (\<lambda>a b. member_Name a = member_Name b),
      FindMemberByID = (\<lambda>i. Inr (node ''peer'' i)),
      isOperable = (\<lambda>t. None),
      isAlive = (\<lambda>t. True),
      routingSignature = (\<lambda>t. 7),
      this = node ''a'' 1,
      PartitionCount = 2,
      ReplicaCount = 3,
      MinimumReplicaCount = 1\<rparr>"

text \<open>Entries, partitions and payloads for the examples.\<close>

definition e10 :: entry where
  "e10 = \<lparr>entry_Timestamp = 10, entry_Value = []\<rparr>"

definition e20 :: entry where
  "e20 = \<lparr>entry_Timestamp = 20, entry_Value = []\<rparr>"

definition partS3 :: "frag partition" where
  "partS3 = \<lparr>part_id = 0, part_backup = False,
     part_m = [(''m'', \<lparr>storage = [], cache = Some \<lparr>accessLog = Some [(1, 100)]\<rparr>\<rparr>)],
     part_owners = [node ''a'' 1]\<rparr>"

definition boxS3 :: dmapbox where
  "boxS3 = \<lparr>PartID = 0, Backup = False, Name = ''m'', Payload = [],
     AccessLog = Some [(1, 50), (2, 75)]\<rparr>"

definition fragEnv :: "frag env" where
  "fragEnv = exampleEnv\<lparr>storagePut := \<lambda>s k e. (Some ErrFragmented, AList.update k e s)\<rparr>"

definition partS2 :: "frag partition" where
  "partS2 = \<lparr>part_id = 0, part_backup = False,
     part_m = [(''m'', \<lparr>storage = [(1, e20)], cache = None\<rparr>)],
     part_owners = [node ''a'' 1]\<rparr>"

definition dbS2 :: "frag olric" where
  "dbS2 = \<lparr>partitions = [0 \<mapsto> partS2], backups = Map.empty, clock = 0, logged = [], wg = 0\<rparr>"

definition reqS2 :: message where
  "reqS2 = \<lparr>msg_op = OpMoveDMap, msg_value = [1, 10, 2, 10]\<rparr>"

definition boxS2 :: dmapbox where
  "boxS2 = \<lparr>PartID = 0, Backup = False, Name = ''m'', Payload = [1, 10, 2, 10], AccessLog = None\<rparr>"

definition partEmpty :: "frag partition" where
  "partEmpty = \<lparr>part_id = 0, part_backup = False, part_m = [], part_owners = [node ''a'' 1]\<rparr>"

definition boxBad :: dmapbox where
  "boxBad = \<lparr>PartID = 0, Backup = False, Name = ''m'', Payload = [1], AccessLog = None\<rparr>"

definition partNotMine :: "frag partition" where
  "partNotMine = \<lparr>part_id = 0, part_backup = False,
     part_m = [(''m'', \<lparr>storage = [(1, e20)], cache = None\<rparr>)],
     part_owners = [node ''b'' 2]\<rparr>"

definition dbS4 :: "frag olric" where
  "dbS4 = \<lparr>partitions = [0 \<mapsto> partNotMine], backups = Map.empty, clock = 0, logged = [], wg = 0\<rparr>"

definition notOperableEnv :: "frag env" where
  "notOperableEnv = exampleEnv\<lparr>isOperable := \<lambda>t. Some (ErrOther 2)\<rparr>"

definition unreachableEnv :: "frag env" where
  "unreachableEnv = exampleEnv\<lparr>requestTo := \<lambda>addr req. Inl (ErrOther 9)\<rparr>"

definition dmS2 :: "frag dmap" where
  "dmS2 = \<lparr>storage = [(1, e20)], cache = None\<rparr>"

definition backupTwoOwners :: "frag partition" where
  "backupTwoOwners = \<lparr>part_id = 0, part_backup = True,
     part_m = [(''m'', \<lparr>storage = [(1, e20)], cache = None\<rparr>)],
     part_owners = [node ''b'' 2, node ''c'' 3]\<rparr>"

definition dbTwo :: "frag olric" where
  "dbTwo = \<lparr>partitions = [0 \<mapsto> partS2, 1 \<mapsto> partEmpty],
     backups = [0 \<mapsto> backupTwoOwners, 1 \<mapsto> partEmpty],
     clock = 0, logged = [], wg = 0\<rparr>"

definition oneReplicaEnv :: "frag env" where
  "oneReplicaEnv = exampleEnv\<lparr>ReplicaCount := 1\<rparr>"

definition changedEnv :: "frag env" where
  "changedEnv = exampleEnv\<lparr>routingSignature := \<lambda>t. if t < 4 then 7 else 8, ReplicaCount := 2\<rparr>"

definition dbChanged :: "frag olric" where
  "dbChanged = dbTwo\<lparr>clock := 4\<rparr>"

text \<open>Two states that differ at most in the clock, which has not gone back: no line was
  logged, no table and no wait group changed.\<close>

definition same_but_clock :: "'s olric \<Rightarrow> 's olric \<Rightarrow> bool" where
  "same_but_clock db' db \<longleftrightarrow>
     logged db' = logged db \<and> partitions db' = partitions db \<and> backups db' = backups db \<and>
     wg db' = wg db \<and> clock db \<le> clock db'"

text \<open>What the spec asks of a storage fragment, stated for an engine \<open>env\<close> with
  \<open>contents\<close> reading a fragment as a mapping from hkeys to entries: \<open>get\<close> fails with
  key-not-found exactly on the absent keys, \<open>len\<close> is zero exactly on the empty mapping,
  \<open>range\<close> visits the mapping once per key, and \<open>put\<close> stores the entry, returning nil
  or the fragmented signal.\<close>

definition fragment_contract :: "'s env \<Rightarrow> ('s \<Rightarrow> u64 \<rightharpoonup> entry) \<Rightarrow> bool" where
  "fragment_contract env contents \<longleftrightarrow>
     (\<forall>s k. storageGet env s k =
        (case contents s k of None \<Rightarrow> Inl ErrKeyNotFound | Some e \<Rightarrow> Inr e)) \<and>
     (\<forall>s. (storageLen env s = 0) = (contents s = Map.empty)) \<and>
     (\<forall>s. map_of (storageRange env s) = contents s \<and> distinct (map fst (storageRange env s))) \<and>
     (\<forall>s k e. (fst (storagePut env s k e) = None \<or> fst (storagePut env s k e) = Some ErrFragmented) \<and>
        contents (snd (storagePut env s k e)) = (contents s)(k \<mapsto> e))"

text \<open>\<open>sortVersions\<close> returns the two versions it is given in some order.\<close>

definition sorts_pair :: "'s env \<Rightarrow> bool" where
  "sorts_pair env \<longleftrightarrow> (\<forall>a b. \<exists>v vs. sortVersions env [a, b] = v # vs \<and> (v = a \<or> v = b))"

text \<open>The merge read on the contents: the winner for one key, and the mapping after the
  entries of a payload have been merged one by one.\<close>

definition winner_of :: "'s env \<Rightarrow> entry option \<Rightarrow> entry \<Rightarrow> entry" where
  "winner_of env c ent =
     (case c of
        None \<Rightarrow> ent
      | Some cur \<Rightarrow>
          (case sortVersions env [\<lparr>version_entry = cur\<rparr>, \<lparr>version_entry = ent\<rparr>] of
             [] \<Rightarrow> ent
           | v # vs \<Rightarrow> version_entry v))"

fun mergeMap :: "'s env \<Rightarrow> (u64 \<times> entry) list \<Rightarrow> (u64 \<rightharpoonup> entry) \<Rightarrow> (u64 \<rightharpoonup> entry)" where
  "mergeMap env [] c = c"
| "mergeMap env ((k, e) # rest) c = mergeMap env rest (c(k \<mapsto> winner_of env (c k) e))"

text \<open>What is compared of a partition: for each name of its map table, the contents of the
  storage and the cache with its access log.\<close>

definition dmap_view :: "('s \<Rightarrow> u64 \<rightharpoonup> entry) \<Rightarrow> 's partition
    \<Rightarrow> (string \<times> (u64 \<rightharpoonup> entry) \<times> cache option) list" where
  "dmap_view contents part = map (\<lambda>(name, dm). (name, contents (storage dm), cache dm)) (part_m part)"

definition partMerged :: "frag partition" where
  "partMerged = store_dm partS2 ''m'' \<lparr>storage = [(1, e20), (2, e10)], cache = None\<rparr>"

text \<open>The timestamp an access log of a partition holds for an hkey: that of the log in
  the cache of the DataMap stored under the name, if there is one.\<close>

definition accessLogAt :: "'s partition \<Rightarrow> string \<Rightarrow> u64 \<Rightarrow> i64 option" where
  "accessLogAt part name hkey =
     (case map_of (part_m part) name of
        None \<Rightarrow> None
      | Some dm \<Rightarrow>
          (case cache dm of
             None \<Rightarrow> None
           | Some ch \<Rightarrow> (case accessLog ch of None \<Rightarrow> None | Some l \<Rightarrow> map_of l hkey)))"

definition boxLog :: dmapbox where
  "boxLog = \<lparr>PartID = 0, Backup = False, Name = ''m'', Payload = [],
     AccessLog = Some [(2, 75)]\<rparr>"

definition partS3Merged :: "frag partition" where
  "partS3Merged = partS3\<lparr>part_m := [(''m'', \<lparr>storage = [],
     cache = Some \<lparr>accessLog = Some [(1, 100), (2, 75)]\<rparr>\<rparr>)]\<rparr>"

definition boxFar :: dmapbox where
  "boxFar = \<lparr>PartID = 5, Backup = False, Name = ''m'', Payload = [1, 10, 2, 10], AccessLog = None\<rparr>"

definition farEnv :: "frag env" where
  "farEnv = exampleEnv\<lparr>msgpackUnmarshal := \<lambda>b. Inr boxFar\<rparr>"

declare collectIds.simps [simp del]
declare rebalancePrimaryLoop.simps [simp del]
declare rebalanceBackupLoop.simps [simp del]

section \<open>The clock leaves the tables and the wait group alone\<close>

lemma referencedPartition_tick [simp]: "referencedPartition (tick db) box = referencedPartition db box"
  by (simp add: referencedPartition_def tick_def)

lemma wg_tick [simp]: "wg (tick db) = wg db"
  by (simp add: tick_def)

section \<open>The tail of the owners list in the backup pass\<close>

text \<open>The loop stops by itself only at \<open>offset\<close>: below index 0 it reads \<open>owners[-1]\<close>.\<close>

lemma collectIds_below_zero:
  assumes "offset < -1" and "-1 \<le> i" and "i < int (length ownrs)"
  shows "collectIds env ownrs offset i ids = None"
  using assms
proof (induction env ownrs offset i ids rule: collectIds.induct)
  case (1 env ownrs offset i ids)
  show ?case
  proof (cases "0 \<le> i")
    case True
    with "1.prems" "1.IH" show ?thesis
      by (subst collectIds.simps) (auto simp: Let_def)
  next
    case False
    with "1.prems" show ?thesis
      by (subst collectIds.simps) auto
  qed
qed

lemma backupIds_short_owners:
  assumes "int (length ownrs) + 1 < ReplicaCount env"
  shows "backupIds env ownrs = None"
  using assms by (simp add: backupIds_def Let_def collectIds_below_zero)

text \<open>C10. With one backup owner and a replica count of 3 the offset is -2: the loop visits
  index 0, then reads \<open>owners[-1]\<close>, which is a runtime panic, where the claim has the loop
  end at index 0.\<close>

theorem backupIds_one_owner_of_three_panics:
  "backupIds (exampleEnv\<lparr>ReplicaCount := 3\<rparr>) [node ''b'' 2] = None"
  by (simp add: backupIds_def exampleEnv_def node_def collectIds.simps)

section \<open>Version selection\<close>

text \<open>C5. \<open>selectVersionForMerge\<close> returns the incoming entry when the lookup reports
  key-not-found, returns any other lookup error, and otherwise returns the entry at
  position 0 of \<open>sortVersions\<close> applied to the local and the incoming version.\<close>

theorem selectVersionForMerge_winner:
  "(storageGet env s hkey = Inl ErrKeyNotFound \<longrightarrow>
      selectVersionForMerge env s hkey ent = Some (Inr ent)) \<and>
   (\<forall>err. storageGet env s hkey = Inl err \<and> err \<noteq> ErrKeyNotFound \<longrightarrow>
      selectVersionForMerge env s hkey ent = Some (Inl err)) \<and>
   (\<forall>current. storageGet env s hkey = Inr current \<and>
      sortVersions env [\<lparr>version_entry = current\<rparr>, \<lparr>version_entry = ent\<rparr>] \<noteq> [] \<longrightarrow>
      selectVersionForMerge env s hkey ent =
        Some (Inr (version_entry
          (sortVersions env [\<lparr>version_entry = current\<rparr>, \<lparr>version_entry = ent\<rparr>] ! 0))))"
  by (auto simp: selectVersionForMerge_def split: list.splits)

theorem selectVersionForMerge_winner_witness:
  "selectVersionForMerge exampleEnv [] 1 e10 = Some (Inr e10) \<and>
   selectVersionForMerge (exampleEnv\<lparr>storageGet := \<lambda>s k. Inl (ErrOther 5)\<rparr>) [] 1 e10
     = Some (Inl (ErrOther 5)) \<and>
   selectVersionForMerge exampleEnv [(1, e20)] 1 e10 = Some (Inr e20)"
proof -
  have a: "storageGet exampleEnv [] 1 = Inl ErrKeyNotFound"
    by (simp add: exampleEnv_def)
  have b: "storageGet (exampleEnv\<lparr>storageGet := \<lambda>s k. Inl (ErrOther 5)\<rparr>) [] 1 = Inl (ErrOther 5)"
    by simp
  have c: "storageGet exampleEnv [(1, e20)] 1 = Inr e20"
    by (simp add: exampleEnv_def)
  have d: "sortVersions exampleEnv [\<lparr>version_entry = e20\<rparr>, \<lparr>version_entry = e10\<rparr>]
             = [\<lparr>version_entry = e20\<rparr>, \<lparr>version_entry = e10\<rparr>]"
    by (simp add: exampleEnv_def sortTwo_def e10_def e20_def)
  show ?thesis
    using selectVersionForMerge_winner [of exampleEnv "[]" 1 e10]
      selectVersionForMerge_winner [of "exampleEnv\<lparr>storageGet := \<lambda>s k. Inl (ErrOther 5)\<rparr>" "[]" 1 e10]
      selectVersionForMerge_winner [of exampleEnv "[(1, e20)]" 1 e10]
      a b c d
    by simp
qed

section \<open>The access log\<close>

lemma map_of_mergeAccessLog:
  "map_of (mergeAccessLog loc inc) hkey =
     (case map_of loc hkey of Some t \<Rightarrow> Some t | None \<Rightarrow> map_of inc hkey)"
proof (induction inc arbitrary: loc)
  case Nil
  show ?case by (simp split: option.splits)
next
  case (Cons p rest)
  obtain h t where p: "p = (h, t)" by (cases p)
  show ?case
  proof (cases "map_of loc h")
    case None
    then show ?thesis
      using Cons.IH [of "AList.update h t loc"] p
      by (simp add: update_conv' split: option.splits)
  next
    case (Some t0)
    then show ?thesis
      using Cons.IH [of loc] p by (auto split: option.splits)
  qed
qed

lemma map_of_store_dm: "map_of (part_m (store_dm part name dm)) name = Some dm"
  by (simp add: store_dm_def update_conv')

lemma mergeDMaps_stored:
  assumes "getOrCreateDMap env part (Name data) = Inr dm"
    and "storageImport env (Payload data) = Inr str"
    and "mergeDMaps env part data n = Some (err, part', n')"
  shows "\<exists>s'. part' = store_dm part (Name data)
            (dm\<lparr>cache := mergeCache (cache dm) (AccessLog data), storage := s'\<rparr>)"
  using assms
  by (auto simp: mergeDMaps_def Let_def split: if_splits option.splits prod.splits)

text \<open>C6, as amended. When the payload is imported: if the DataMap has a cache with an
  access log, the access log of the DataMap stored by \<open>mergeDMaps\<close> keeps the local
  timestamp of every hkey that was in the local log and has the incoming timestamp for
  every other hkey of the payload's log, whatever the merge of the entries returns; and if
  the DataMap has no cache, or a cache with no access log, the incoming log is not merged
  and the stored DataMap has the cache it had.\<close>

theorem mergeDMaps_accessLog_first_writer:
  assumes "getOrCreateDMap env part (Name data) = Inr dm"
    and "storageImport env (Payload data) = Inr str"
    and "mergeDMaps env part data n = Some (err, part', n')"
  shows "(\<forall>ch loc inc. cache dm = Some ch \<and> accessLog ch = Some loc \<and> AccessLog data = Some inc \<longrightarrow>
           (\<exists>dm' ch' log'. map_of (part_m part') (Name data) = Some dm' \<and> cache dm' = Some ch' \<and>
              accessLog ch' = Some log' \<and>
              (\<forall>hkey. map_of log' hkey =
                 (case map_of loc hkey of Some t \<Rightarrow> Some t | None \<Rightarrow> map_of inc hkey)) \<and>
              (\<forall>hkey. accessLogAt part' (Name data) hkey =
                 (case map_of loc hkey of Some t \<Rightarrow> Some t | None \<Rightarrow> map_of inc hkey)))) \<and>
         (cache dm = None \<or> (\<exists>ch. cache dm = Some ch \<and> accessLog ch = None) \<longrightarrow>
           (\<exists>dm'. map_of (part_m part') (Name data) = Some dm' \<and> cache dm' = cache dm))"
proof -
  from mergeDMaps_stored [OF assms(1) assms(2) assms(3)] obtain s' where
    p: "part' = store_dm part (Name data)
          (dm\<lparr>cache := mergeCache (cache dm) (AccessLog data), storage := s'\<rparr>)" ..
  have first: "\<exists>dm' ch' log'. map_of (part_m part') (Name data) = Some dm' \<and> cache dm' = Some ch' \<and>
      accessLog ch' = Some log' \<and>
      (\<forall>hkey. map_of log' hkey =
         (case map_of loc hkey of Some t \<Rightarrow> Some t | None \<Rightarrow> map_of inc hkey)) \<and>
      (\<forall>hkey. accessLogAt part' (Name data) hkey =
         (case map_of loc hkey of Some t \<Rightarrow> Some t | None \<Rightarrow> map_of inc hkey))"
    if h: "cache dm = Some ch \<and> accessLog ch = Some loc \<and> AccessLog data = Some inc"
    for ch loc inc
  proof -
    have c: "mergeCache (cache dm) (AccessLog data)
        = Some (ch\<lparr>accessLog := Some (mergeAccessLog loc inc)\<rparr>)"
      using h by (simp add: mergeCache_def)
    show ?thesis
      using p c by (simp add: map_of_store_dm map_of_mergeAccessLog accessLogAt_def)
  qed
  have second: "\<exists>dm'. map_of (part_m part') (Name data) = Some dm' \<and> cache dm' = cache dm"
    if h: "cache dm = None \<or> (\<exists>ch. cache dm = Some ch \<and> accessLog ch = None)"
  proof -
    from h have "mergeCache (cache dm) (AccessLog data) = cache dm"
      by (auto simp: mergeCache_def)
    with p show ?thesis by (simp add: map_of_store_dm)
  qed
  from first second show ?thesis by blast
qed

lemma mergeDMaps_S3:
  "mergeDMaps exampleEnv partS3 boxS3 0 = Some (None, partS3Merged, 0)"
  by (simp add: mergeDMaps_def getOrCreateDMap_def exampleEnv_def partS3_def boxS3_def
      mergeCache_def store_dm_def partS3Merged_def)

theorem mergeDMaps_accessLog_first_writer_witness:
  "mergeDMaps exampleEnv partS3 boxS3 0 = Some (None, partS3Merged, 0) \<and>
   accessLogAt partS3 ''m'' 1 = Some 100 \<and>
   accessLogAt partS3 ''m'' 2 = None \<and>
   accessLogAt partS3Merged ''m'' 1 = Some 100 \<and>
   accessLogAt partS3Merged ''m'' 2 = Some 75"
proof -
  have g: "getOrCreateDMap exampleEnv partS3 (Name boxS3)
             = Inr \<lparr>storage = [], cache = Some \<lparr>accessLog = Some [(1, 100)]\<rparr>\<rparr>"
    by (simp add: getOrCreateDMap_def partS3_def boxS3_def)
  have i: "storageImport exampleEnv (Payload boxS3) = Inr []"
    by (simp add: exampleEnv_def boxS3_def)
  have h: "cache \<lparr>storage = ([] :: frag), cache = Some \<lparr>accessLog = Some [(1, 100)]\<rparr>\<rparr>
             = Some \<lparr>accessLog = Some [(1, 100)]\<rparr> \<and>
           accessLog \<lparr>accessLog = Some [(1, 100)]\<rparr> = Some [(1, 100)] \<and>
           AccessLog boxS3 = Some [(1, 50), (2, 75)]"
    by (simp add: boxS3_def)
  from mergeDMaps_accessLog_first_writer [OF g i mergeDMaps_S3, THEN conjunct1, rule_format, OF h]
  have a: "\<forall>hkey. accessLogAt partS3Merged (Name boxS3) hkey =
      (case map_of [(1, 100)] hkey of Some t \<Rightarrow> Some t | None \<Rightarrow> map_of [(1, 50), (2, 75)] hkey)"
    by blast
  have n: "Name boxS3 = ''m''"
    by (simp add: boxS3_def)
  from a have a1: "accessLogAt partS3Merged ''m'' 1 = Some 100"
    by (simp add: n)
  from a have a2: "accessLogAt partS3Merged ''m'' 2 = Some 75"
    by (simp add: n)
  have b1: "accessLogAt partS3 ''m'' 1 = Some 100"
    by (simp add: accessLogAt_def partS3_def)
  have b2: "accessLogAt partS3 ''m'' 2 = None"
    by (simp add: accessLogAt_def partS3_def)
  from mergeDMaps_S3 b1 b2 a1 a2 show ?thesis by (intro conjI)
qed

text \<open>The claim as it was stated fails where the guard of line 107 does not hold: a
  DataMap with no cache receives a payload whose access log has hkey 2 at 75, and after
  the merge no access log holds hkey 2.\<close>

theorem accessLog_dropped_without_cache:
  "AccessLog boxLog = Some [(2, 75)] \<and>
   mergeDMaps exampleEnv partS2 boxLog 0 = Some (None, store_dm partS2 ''m'' dmS2, 0) \<and>
   accessLogAt partS2 ''m'' 2 = None \<and>
   accessLogAt (store_dm partS2 ''m'' dmS2) ''m'' 2 = None"
  by (simp add: mergeDMaps_def getOrCreateDMap_def exampleEnv_def partS2_def boxLog_def
      mergeCache_def store_dm_def dmS2_def accessLogAt_def)

section \<open>Fragmented storage during the merge\<close>

lemma selectVersionForMerge_total:
  assumes "\<forall>s k. storageGet env s k = Inl ErrKeyNotFound \<or> (\<exists>e. storageGet env s k = Inr e)"
    and "\<forall>a b. sortVersions env [a, b] \<noteq> []"
  shows "\<exists>w. selectVersionForMerge env s k e = Some (Inr w)"
proof -
  from assms(1) have "storageGet env s k = Inl ErrKeyNotFound \<or> (\<exists>c. storageGet env s k = Inr c)"
    by blast
  then show ?thesis
  proof
    assume "storageGet env s k = Inl ErrKeyNotFound"
    then show ?thesis by (simp add: selectVersionForMerge_def)
  next
    assume "\<exists>c. storageGet env s k = Inr c"
    then obtain c where c: "storageGet env s k = Inr c" ..
    from assms(2) obtain v vs where
      "sortVersions env [\<lparr>version_entry = c\<rparr>, \<lparr>version_entry = e\<rparr>] = v # vs"
      by (meson list.exhaust)
    with c show ?thesis by (simp add: selectVersionForMerge_def)
  qed
qed

lemma mergeRange_completes:
  assumes "\<forall>s k e. fst (storagePut env s k e) = None \<or> fst (storagePut env s k e) = Some ErrFragmented"
    and "\<forall>s k. storageGet env s k = Inl ErrKeyNotFound \<or> (\<exists>e. storageGet env s k = Inr e)"
    and "\<forall>a b. sortVersions env [a, b] \<noteq> []"
  shows "\<exists>s' n'. mergeRange env entries s n = Some (None, s', n')"
proof (induction entries arbitrary: s n)
  case Nil
  show ?case by simp
next
  case (Cons p rest)
  obtain k e where p: "p = (k, e)" by (cases p)
  from selectVersionForMerge_total [OF assms(2,3)] obtain w where
    w: "selectVersionForMerge env s k e = Some (Inr w)" by blast
  obtain r s1 where put: "storagePut env s k w = (r, s1)" by (cases "storagePut env s k w")
  with assms(1) have "r = None \<or> r = Some ErrFragmented"
    by (metis fst_conv)
  then show ?case
  proof
    assume "r = None"
    with p w put Cons.IH [of s1 n] show ?thesis by simp
  next
    assume "r = Some ErrFragmented"
    with p w put Cons.IH [of s1 "n + 1"] show ?thesis by simp
  qed
qed


lemma mergeDMaps_completes:
  assumes "\<And>entries s n. \<exists>s' n'. mergeRange env entries s n = Some (None, s', n')"
    and "getOrCreateDMap env part (Name box) = Inr dm"
    and "storageImport env (Payload box) = Inr str"
  shows "\<exists>part' n'. mergeDMaps env part box n = Some (None, part', n')"
proof (cases "storageLen env (storage dm) = 0")
  case True
  with assms(2,3) show ?thesis by (simp add: mergeDMaps_def Let_def)
next
  case False
  from assms(1) [of "storageRange env str" "storage dm" n] obtain s1 n1 where
    "mergeRange env (storageRange env str) (storage dm) n = Some (None, s1, n1)" by blast
  with False assms(2,3) show ?thesis by (simp add: mergeDMaps_def Let_def)
qed

lemma moveDMapOperation_ok:
  assumes "isOperable env (clock db) = None"
    and "msgpackUnmarshal env (msg_value req) = Inr box"
    and "referencedPartition db box = Some part"
    and "checkOwnership env part"
    and "mergeDMaps env part box (wg db) = Some (None, part', n')"
  shows "\<exists>db'. moveDMapOperation env db req = Some (StatusOK, db')"
  using assms by (simp add: moveDMapOperation_def Let_def)


lemma moveDMapOperation_completes:
  assumes "\<forall>s k e. fst (storagePut env s k e) = None \<or> fst (storagePut env s k e) = Some ErrFragmented"
    and "\<forall>s k. storageGet env s k = Inl ErrKeyNotFound \<or> (\<exists>e. storageGet env s k = Inr e)"
    and "\<forall>a b. sortVersions env [a, b] \<noteq> []"
    and "isOperable env (clock db) = None"
    and "msgpackUnmarshal env (msg_value req) = Inr box"
    and "referencedPartition db box = Some part"
    and "checkOwnership env part"
    and "getOrCreateDMap env part (Name box) = Inr dm"
    and "storageImport env (Payload box) = Inr str"
  shows "\<exists>db'. moveDMapOperation env db req = Some (StatusOK, db')"
proof -
  have c: "\<And>entries s n. \<exists>s' n'. mergeRange env entries s n = Some (None, s', n')"
    by (rule mergeRange_completes [OF assms(1,2,3)])
  from mergeDMaps_completes [OF c assms(8,9)] obtain part' n' where
    "mergeDMaps env part box (wg db) = Some (None, part', n')" by blast
  from moveDMapOperation_ok [OF assms(4,5,6,7) this] show ?thesis .
qed

lemma mergeRange_all_fragmented:
  assumes "\<forall>s k e. fst (storagePut env s k e) = Some ErrFragmented"
    and "\<forall>s k. storageGet env s k = Inl ErrKeyNotFound \<or> (\<exists>e. storageGet env s k = Inr e)"
    and "\<forall>a b. sortVersions env [a, b] \<noteq> []"
  shows "\<exists>s'. mergeRange env entries s n = Some (None, s', n + length entries)"
proof (induction entries arbitrary: s n)
  case Nil
  show ?case by simp
next
  case (Cons p rest)
  obtain k e where p: "p = (k, e)" by (cases p)
  from selectVersionForMerge_total [OF assms(2,3)] obtain w where
    w: "selectVersionForMerge env s k e = Some (Inr w)" by blast
  obtain r s1 where put: "storagePut env s k w = (r, s1)" by (cases "storagePut env s k w")
  with assms(1) have r: "r = Some ErrFragmented"
    by (metis fst_conv)
  from Cons.IH [of s1 "n + 1"] obtain s' where
    "mergeRange env rest s1 (n + 1) = Some (None, s', n + 1 + length rest)" by blast
  with p w put r show ?case by simp
qed

lemma mergeDMaps_iterates:
  assumes "getOrCreateDMap env part (Name box) = Inr dm"
    and "storageImport env (Payload box) = Inr str"
    and "storageLen env (storage dm) \<noteq> 0"
    and "mergeRange env (storageRange env str) (storage dm) n = Some (err, s', n')"
  shows "mergeDMaps env part box n =
     Some (err, store_dm part (Name box)
        (dm\<lparr>cache := mergeCache (cache dm) (AccessLog box), storage := s'\<rparr>), n')"
  using assms by (simp add: mergeDMaps_def Let_def)

lemma moveDMapOperation_writes_back:
  assumes "isOperable env (clock db) = None"
    and "msgpackUnmarshal env (msg_value req) = Inr box"
    and "referencedPartition db box = Some part"
    and "checkOwnership env part"
    and "mergeDMaps env part box (wg db) = Some (None, part', n')"
  shows "\<exists>db'. moveDMapOperation env db req = Some (StatusOK, db') \<and>
           referencedPartition db' box = Some part' \<and> wg db' = n'"
proof -
  let ?db2 = "if Backup box
      then (tick db)\<lparr>backups := (backups (tick db))(PartID box \<mapsto> part'), wg := n'\<rparr>
      else (tick db)\<lparr>partitions := (partitions (tick db))(PartID box \<mapsto> part'), wg := n'\<rparr>"
  have "moveDMapOperation env db req = Some (StatusOK, ?db2)"
    using assms by (simp add: moveDMapOperation_def Let_def)
  moreover have "referencedPartition ?db2 box = Some part'"
    by (simp add: referencedPartition_def)
  moreover have "wg ?db2 = n'"
    by simp
  ultimately show ?thesis by blast
qed

lemma moveDMapOperation_iterates:
  assumes "\<forall>s k e. fst (storagePut env s k e) = None \<or> fst (storagePut env s k e) = Some ErrFragmented"
    and "\<forall>s k. storageGet env s k = Inl ErrKeyNotFound \<or> (\<exists>e. storageGet env s k = Inr e)"
    and "\<forall>a b. sortVersions env [a, b] \<noteq> []"
    and "isOperable env (clock db) = None"
    and "msgpackUnmarshal env (msg_value req) = Inr box"
    and "referencedPartition db box = Some part"
    and "checkOwnership env part"
    and "getOrCreateDMap env part (Name box) = Inr dm"
    and "storageImport env (Payload box) = Inr str"
    and "storageLen env (storage dm) \<noteq> 0"
  shows "\<exists>s' n' db'.
           mergeRange env (storageRange env str) (storage dm) (wg db) = Some (None, s', n') \<and>
           moveDMapOperation env db req = Some (StatusOK, db') \<and>
           referencedPartition db' box = Some (store_dm part (Name box)
             (dm\<lparr>cache := mergeCache (cache dm) (AccessLog box), storage := s'\<rparr>)) \<and>
           wg db' = n'"
proof -
  from mergeRange_completes [OF assms(1,2,3)] obtain s' n' where
    r: "mergeRange env (storageRange env str) (storage dm) (wg db) = Some (None, s', n')"
    by blast
  note m = mergeDMaps_iterates [OF assms(8,9,10) r]
  from moveDMapOperation_writes_back [OF assms(4,5,6,7) m] obtain db' where
    "moveDMapOperation env db req = Some (StatusOK, db')"
    "referencedPartition db' box = Some (store_dm part (Name box)
       (dm\<lparr>cache := mergeCache (cache dm) (AccessLog box), storage := s'\<rparr>))"
    "wg db' = n'" by blast
  with r show ?thesis by blast
qed

text \<open>C7. A put that returns the fragmented signal adds one compaction task to the wait
  group, clears the error and lets the iteration go on with the next entry; when every put
  returns the signal, the iteration runs to the last entry and adds one task for each.
  A request whose puts return nil or the signal only (the lookups failing with
  key-not-found only and the other steps succeeding) is answered with \<open>StatusOK\<close>, and when
  the DataMap had keys its state afterwards is that of the iteration over the whole
  payload: the storage it reached is stored in the partition and the wait group holds the
  tasks it added.\<close>

theorem fragmented_put_not_surfaced:
  "(selectVersionForMerge env s hkey ent = Some (Inr winner) \<and>
    storagePut env s hkey winner = (Some ErrFragmented, s') \<longrightarrow>
      mergeRange env ((hkey, ent) # rest) s n = mergeRange env rest s' (n + 1)) \<and>
   ((\<forall>s k e. fst (storagePut env s k e) = Some ErrFragmented) \<and>
    (\<forall>s k. storageGet env s k = Inl ErrKeyNotFound \<or> (\<exists>e. storageGet env s k = Inr e)) \<and>
    (\<forall>a b. sortVersions env [a, b] \<noteq> []) \<longrightarrow>
      (\<exists>s'. mergeRange env entries s n = Some (None, s', n + length entries))) \<and>
   ((\<forall>s k e. fst (storagePut env s k e) = None \<or> fst (storagePut env s k e) = Some ErrFragmented) \<and>
    (\<forall>s k. storageGet env s k = Inl ErrKeyNotFound \<or> (\<exists>e. storageGet env s k = Inr e)) \<and>
    (\<forall>a b. sortVersions env [a, b] \<noteq> []) \<and>
    isOperable env (clock db) = None \<and>
    msgpackUnmarshal env (msg_value req) = Inr box \<and>
    referencedPartition db box = Some part \<and>
    checkOwnership env part \<and>
    getOrCreateDMap env part (Name box) = Inr dm \<and>
    storageImport env (Payload box) = Inr str \<and>
    storageLen env (storage dm) \<noteq> 0 \<longrightarrow>
      (\<exists>s' n' db'.
         mergeRange env (storageRange env str) (storage dm) (wg db) = Some (None, s', n') \<and>
         moveDMapOperation env db req = Some (StatusOK, db') \<and>
         referencedPartition db' box = Some (store_dm part (Name box)
           (dm\<lparr>cache := mergeCache (cache dm) (AccessLog box), storage := s'\<rparr>)) \<and>
         wg db' = n')) \<and>
   ((\<forall>s k e. fst (storagePut env s k e) = None \<or> fst (storagePut env s k e) = Some ErrFragmented) \<and>
    (\<forall>s k. storageGet env s k = Inl ErrKeyNotFound \<or> (\<exists>e. storageGet env s k = Inr e)) \<and>
    (\<forall>a b. sortVersions env [a, b] \<noteq> []) \<and>
    isOperable env (clock db) = None \<and>
    msgpackUnmarshal env (msg_value req) = Inr box \<and>
    referencedPartition db box = Some part \<and>
    checkOwnership env part \<and>
    getOrCreateDMap env part (Name box) = Inr dm \<and>
    storageImport env (Payload box) = Inr str \<longrightarrow>
      (\<exists>db'. moveDMapOperation env db req = Some (StatusOK, db')))"
  apply (intro conjI impI; elim conjE)
     apply simp
    apply (rule mergeRange_all_fragmented; assumption)
   apply (rule moveDMapOperation_iterates; assumption)
  apply (rule moveDMapOperation_completes; assumption)
  done

lemma mergeRange_fragEnv:
  "mergeRange fragEnv [(2, e10), (1, e10)] [(1, e20)] 0 = Some (None, [(1, e20), (2, e10)], 2)"
  by (simp add: selectVersionForMerge_def fragEnv_def exampleEnv_def sortTwo_def e10_def e20_def)

theorem fragmented_put_not_surfaced_witness:
  "mergeRange fragEnv [(2, e10), (1, e10)] [(1, e20)] 0
     = mergeRange fragEnv [(1, e10)] [(1, e20), (2, e10)] (0 + 1) \<and>
   mergeRange fragEnv [(2, e10), (1, e10)] [(1, e20)] 0 = Some (None, [(1, e20), (2, e10)], 2) \<and>
   (\<exists>db'. moveDMapOperation fragEnv dbS2 reqS2 = Some (StatusOK, db') \<and>
      referencedPartition db' boxS2 = Some partMerged \<and> wg db' = 2)"
proof -
  note t = fragmented_put_not_surfaced [of fragEnv "[(1, e20)]" 2 e10 e10 "[(1, e20), (2, e10)]"
      "[(1, e10)]" 0 "[(2, e10), (1, e10)]" dbS2 reqS2 boxS2 partS2
      dmS2 "[(2, e10), (1, e10)]"]
  have p: "\<forall>s k e. fst (storagePut fragEnv s k e) = None \<or> fst (storagePut fragEnv s k e) = Some ErrFragmented"
    by (simp add: fragEnv_def exampleEnv_def)
  have pf: "\<forall>s k e. fst (storagePut fragEnv s k e) = Some ErrFragmented"
    by (simp add: fragEnv_def exampleEnv_def)
  have g: "\<forall>s k. storageGet fragEnv s k = Inl ErrKeyNotFound \<or> (\<exists>e. storageGet fragEnv s k = Inr e)"
    by (simp add: fragEnv_def exampleEnv_def split: option.splits)
  have v: "\<forall>a b. sortVersions fragEnv [a, b] \<noteq> []"
    by (simp add: fragEnv_def exampleEnv_def sortTwo_def)
  have s: "selectVersionForMerge fragEnv [(1, e20)] 2 e10 = Some (Inr e10)"
    by (simp add: selectVersionForMerge_def fragEnv_def exampleEnv_def)
  have u: "storagePut fragEnv [(1, e20)] 2 e10 = (Some ErrFragmented, [(1, e20), (2, e10)])"
    by (simp add: fragEnv_def exampleEnv_def)
  have o: "isOperable fragEnv (clock dbS2) = None"
    by (simp add: fragEnv_def exampleEnv_def)
  have m: "msgpackUnmarshal fragEnv (msg_value reqS2) = Inr boxS2"
    by (simp add: fragEnv_def exampleEnv_def reqS2_def boxS2_def)
  have r: "referencedPartition dbS2 boxS2 = Some partS2"
    by (simp add: referencedPartition_def dbS2_def boxS2_def)
  have c: "checkOwnership fragEnv partS2"
    by (simp add: checkOwnership_def partS2_def fragEnv_def exampleEnv_def)
  have d: "getOrCreateDMap fragEnv partS2 (Name boxS2) = Inr dmS2"
    by (simp add: getOrCreateDMap_def partS2_def boxS2_def dmS2_def)
  have i: "storageImport fragEnv (Payload boxS2) = Inr [(2, e10), (1, e10)]"
    by (simp add: fragEnv_def exampleEnv_def boxS2_def e10_def)
  have l: "storageLen fragEnv (storage dmS2) \<noteq> 0"
    by (simp add: fragEnv_def exampleEnv_def dmS2_def)
  have rg: "storageRange fragEnv [(2, e10), (1, e10)] = [(2, e10), (1, e10)]"
    by (simp add: fragEnv_def exampleEnv_def)
  have w0: "wg dbS2 = 0"
    by (simp add: dbS2_def)
  have st: "store_dm partS2 (Name boxS2)
      (dmS2\<lparr>cache := mergeCache (cache dmS2) (AccessLog boxS2),
          storage := [(1, e20), (2, e10)]\<rparr>) = partMerged"
    by (simp add: partMerged_def boxS2_def mergeCache_def dmS2_def)
  have sd: "storage dmS2 = [(1, e20)]"
    by (simp add: dmS2_def)
  have r1: "mergeRange fragEnv [(2, e10), (1, e10)] [(1, e20)] 0
     = mergeRange fragEnv [(1, e10)] [(1, e20), (2, e10)] (0 + 1)"
    by (rule t [THEN conjunct1, THEN mp]) (rule conjI [OF s u])
  from t [THEN conjunct2, THEN conjunct1, THEN mp, OF conjI [OF pf conjI [OF g v]]]
  obtain sx where "mergeRange fragEnv [(2, e10), (1, e10)] [(1, e20)] 0
      = Some (None, sx, 0 + length [(2::u64, e10), (1, e10)])" ..
  with mergeRange_fragEnv
  have r2: "mergeRange fragEnv [(2, e10), (1, e10)] [(1, e20)] 0 = Some (None, [(1, e20), (2, e10)], 2)"
    by simp
  from t [THEN conjunct2, THEN conjunct2, THEN conjunct1, THEN mp,
      OF conjI [OF p conjI [OF g conjI [OF v conjI [OF o conjI [OF m conjI [OF r conjI [OF c
        conjI [OF d conjI [OF i l]]]]]]]]]]
  obtain s' n' db' where
    a: "mergeRange fragEnv (storageRange fragEnv [(2, e10), (1, e10)])
          (storage dmS2) (wg dbS2) = Some (None, s', n')"
    and b: "moveDMapOperation fragEnv dbS2 reqS2 = Some (StatusOK, db')"
    and e: "referencedPartition db' boxS2 = Some (store_dm partS2 (Name boxS2)
          (dmS2\<lparr>cache := mergeCache (cache dmS2) (AccessLog boxS2), storage := s'\<rparr>))"
    and f: "wg db' = n'" by blast
  from a have "mergeRange fragEnv [(2, e10), (1, e10)] [(1, e20)] 0 = Some (None, s', n')"
    by (simp only: rg w0 sd)
  with r2 have s': "s' = [(1, e20), (2, e10)]" and n': "n' = 2" by simp_all
  from e st have "referencedPartition db' boxS2 = Some partMerged"
    by (simp only: s')
  with b f n' have r3: "\<exists>db'. moveDMapOperation fragEnv dbS2 reqS2 = Some (StatusOK, db') \<and>
      referencedPartition db' boxS2 = Some partMerged \<and> wg db' = 2" by blast
  from r1 r2 r3 show ?thesis by (intro conjI)
qed

section \<open>The deferred store of \<open>mergeDMaps\<close>\<close>

text \<open>C9. Once \<open>getOrCreateDMap\<close> has succeeded, every return of \<open>mergeDMaps\<close> leaves a
  DataMap stored under the name in the partition's map table: when the import fails, the
  DataMap as \<open>getOrCreateDMap\<close> returned it, with the import error; and whatever error the
  merge returns otherwise. So a failed merge leaves a newly created DataMap registered.\<close>

theorem mergeDMaps_stores_on_every_return:
  assumes "getOrCreateDMap env part (Name data) = Inr dm"
  shows "(\<forall>err. storageImport env (Payload data) = Inl err \<longrightarrow>
            mergeDMaps env part data n = Some (Some err, store_dm part (Name data) dm, n)) \<and>
         (\<forall>err part' n'. mergeDMaps env part data n = Some (err, part', n') \<longrightarrow>
            (\<exists>dm'. part' = store_dm part (Name data) dm' \<and>
                   map_of (part_m part') (Name data) = Some dm'))"
proof (intro conjI allI impI)
  fix err
  assume "storageImport env (Payload data) = Inl err"
  with assms show "mergeDMaps env part data n = Some (Some err, store_dm part (Name data) dm, n)"
    by (simp add: mergeDMaps_def)
next
  fix err part' n'
  assume m: "mergeDMaps env part data n = Some (err, part', n')"
  show "\<exists>dm'. part' = store_dm part (Name data) dm' \<and> map_of (part_m part') (Name data) = Some dm'"
  proof (cases "storageImport env (Payload data)")
    case (Inl e)
    with assms m show ?thesis
      by (auto simp: mergeDMaps_def map_of_store_dm)
  next
    case (Inr str)
    from mergeDMaps_stored [OF assms Inr m] show ?thesis
      by (auto simp: map_of_store_dm)
  qed
qed

theorem mergeDMaps_stores_on_every_return_witness:
  "map_of (part_m partEmpty) ''m'' = None \<and>
   mergeDMaps exampleEnv partEmpty boxBad 0
     = Some (Some (ErrOther 1),
         store_dm partEmpty ''m'' \<lparr>storage = [], cache = Some \<lparr>accessLog = Some []\<rparr>\<rparr>, 0) \<and>
   map_of (part_m (store_dm partEmpty ''m'' \<lparr>storage = [], cache = Some \<lparr>accessLog = Some []\<rparr>\<rparr>)) ''m''
     = Some \<lparr>storage = [], cache = Some \<lparr>accessLog = Some []\<rparr>\<rparr>"
proof -
  have g: "getOrCreateDMap exampleEnv partEmpty (Name boxBad)
             = Inr \<lparr>storage = [], cache = Some \<lparr>accessLog = Some []\<rparr>\<rparr>"
    by (simp add: getOrCreateDMap_def partEmpty_def exampleEnv_def)
  have i: "storageImport exampleEnv (Payload boxBad) = Inl (ErrOther 1)"
    by (simp add: exampleEnv_def boxBad_def)
  have n: "Name boxBad = ''m''"
    by (simp add: boxBad_def)
  note t = mergeDMaps_stores_on_every_return [OF g, of 0]
  from t [THEN conjunct1, THEN spec, THEN mp, OF i]
  have a: "mergeDMaps exampleEnv partEmpty boxBad 0
     = Some (Some (ErrOther 1),
         store_dm partEmpty ''m'' \<lparr>storage = [], cache = Some \<lparr>accessLog = Some []\<rparr>\<rparr>, 0)"
    by (simp add: n)
  have b: "map_of (part_m partEmpty) ''m'' = None"
    by (simp add: partEmpty_def)
  show ?thesis
    using a b by (simp add: map_of_store_dm)
qed

section \<open>The checks of \<open>moveDMapOperation\<close>\<close>

lemma ownersContain_iff:
  "ownersContain env ownrs = (\<exists>owner\<in>set ownrs. cmpMembersByID env owner (this env))"
  by (induction ownrs) auto

lemma moveDMapOperation_StatusOK_D:
  assumes "moveDMapOperation env db req = Some (StatusOK, db')"
  shows "\<exists>box part part' n'. isOperable env (clock db) = None \<and>
           msgpackUnmarshal env (msg_value req) = Inr box \<and>
           referencedPartition db box = Some part \<and>
           checkOwnership env part \<and>
           mergeDMaps env part box (wg db) = Some (None, part', n')"
proof (cases "isOperable env (clock db)")
  case (Some e)
  with assms show ?thesis by (simp add: moveDMapOperation_def Let_def)
next
  case None
  note op = this
  show ?thesis
  proof (cases "msgpackUnmarshal env (msg_value req)")
    case (Inl e)
    with assms op show ?thesis by (simp add: moveDMapOperation_def Let_def)
  next
    case (Inr box)
    note un = this
    show ?thesis
    proof (cases "referencedPartition db box")
      case None
      with assms op un show ?thesis by (simp add: moveDMapOperation_def Let_def)
    next
      case (Some part)
      note rp = this
      show ?thesis
      proof (cases "checkOwnership env part")
        case False
        with assms op un rp show ?thesis by (simp add: moveDMapOperation_def Let_def)
      next
        case True
        with assms op un rp show ?thesis
          by (simp add: moveDMapOperation_def Let_def split: option.splits prod.splits if_splits)
      qed
    qed
  qed
qed

lemma moveDMapOperation_merged:
  assumes "isOperable env (clock db) = None"
    and "msgpackUnmarshal env (msg_value req) = Inr box"
    and "referencedPartition db box = Some part"
    and "checkOwnership env part"
    and "mergeDMaps env part box (wg db) = Some (None, part', n')"
  shows "\<exists>db'. moveDMapOperation env db req = Some (StatusOK, db') \<and>
           referencedPartition db' box = Some part' \<and> wg db' = n'"
proof -
  let ?db2 = "if Backup box
      then (tick db)\<lparr>backups := (backups (tick db))(PartID box \<mapsto> part'), wg := n'\<rparr>
      else (tick db)\<lparr>partitions := (partitions (tick db))(PartID box \<mapsto> part'), wg := n'\<rparr>"
  have "moveDMapOperation env db req = Some (StatusOK, ?db2)"
    using assms by (simp add: moveDMapOperation_def Let_def)
  moreover have "referencedPartition ?db2 box = Some part'"
    by (simp add: referencedPartition_def)
  moreover have "wg ?db2 = n'"
    by simp
  ultimately show ?thesis by blast
qed

text \<open>The checks, for a request that names a partition of the table:
  \<open>moveDMapOperation\<close> answers with the error of \<open>isOperable\<close> when the node is not
  operable, whatever the payload; with the decoding error when the node is operable and the
  payload does not unmarshal; and with an error wrapping \<open>ErrInvalidArgument\<close> when no
  owner of the referenced partition equals the local node by id. In these three cases the
  state is the one before but for the clock: nothing is merged. \<open>StatusOK\<close> is written only
  when the three checks passed and \<open>mergeDMaps\<close> returned no error, and it is written then,
  with the merged partition in the table.\<close>

lemma moveDMapOperation_guards:
  "(\<forall>err. isOperable env (clock db) = Some err \<longrightarrow>
      moveDMapOperation env db req = Some (ErrorResponse err, tick db)) \<and>
   (\<forall>err. isOperable env (clock db) = None \<and> msgpackUnmarshal env (msg_value req) = Inl err \<longrightarrow>
      moveDMapOperation env db req = Some (ErrorResponse err, tick db)) \<and>
   (\<forall>box part. isOperable env (clock db) = None \<and> msgpackUnmarshal env (msg_value req) = Inr box \<and>
      referencedPartition db box = Some part \<and>
      \<not> (\<exists>owner\<in>set (part_owners part). cmpMembersByID env owner (this env)) \<longrightarrow>
      (\<exists>e. moveDMapOperation env db req = Some (ErrorResponse e, tick db) \<and>
           errors_Is e ErrInvalidArgument)) \<and>
   (\<forall>db'. moveDMapOperation env db req = Some (StatusOK, db') \<longrightarrow>
      (\<exists>box part part' n'. isOperable env (clock db) = None \<and>
         msgpackUnmarshal env (msg_value req) = Inr box \<and>
         referencedPartition db box = Some part \<and>
         (\<exists>owner\<in>set (part_owners part). cmpMembersByID env owner (this env)) \<and>
         mergeDMaps env part box (wg db) = Some (None, part', n'))) \<and>
   (\<forall>box part part' n'. isOperable env (clock db) = None \<and>
      msgpackUnmarshal env (msg_value req) = Inr box \<and>
      referencedPartition db box = Some part \<and>
      (\<exists>owner\<in>set (part_owners part). cmpMembersByID env owner (this env)) \<and>
      mergeDMaps env part box (wg db) = Some (None, part', n') \<longrightarrow>
      (\<exists>db'. moveDMapOperation env db req = Some (StatusOK, db') \<and>
         referencedPartition db' box = Some part' \<and> wg db' = n'))"
proof (intro conjI allI impI)
  fix err
  assume "isOperable env (clock db) = Some err"
  then show "moveDMapOperation env db req = Some (ErrorResponse err, tick db)"
    by (simp add: moveDMapOperation_def Let_def)
next
  fix err
  assume "isOperable env (clock db) = None \<and> msgpackUnmarshal env (msg_value req) = Inl err"
  then show "moveDMapOperation env db req = Some (ErrorResponse err, tick db)"
    by (simp add: moveDMapOperation_def Let_def)
next
  fix box part
  assume "isOperable env (clock db) = None \<and> msgpackUnmarshal env (msg_value req) = Inr box \<and>
      referencedPartition db box = Some part \<and>
      \<not> (\<exists>owner\<in>set (part_owners part). cmpMembersByID env owner (this env))"
  then show "\<exists>e. moveDMapOperation env db req = Some (ErrorResponse e, tick db) \<and>
           errors_Is e ErrInvalidArgument"
    by (simp add: moveDMapOperation_def Let_def checkOwnership_def ownersContain_iff)
next
  fix db'
  assume "moveDMapOperation env db req = Some (StatusOK, db')"
  from moveDMapOperation_StatusOK_D [OF this]
  show "\<exists>box part part' n'. isOperable env (clock db) = None \<and>
         msgpackUnmarshal env (msg_value req) = Inr box \<and>
         referencedPartition db box = Some part \<and>
         (\<exists>owner\<in>set (part_owners part). cmpMembersByID env owner (this env)) \<and>
         mergeDMaps env part box (wg db) = Some (None, part', n')"
    by (simp add: checkOwnership_def ownersContain_iff)
next
  fix box part part' n'
  assume h: "isOperable env (clock db) = None \<and>
      msgpackUnmarshal env (msg_value req) = Inr box \<and>
      referencedPartition db box = Some part \<and>
      (\<exists>owner\<in>set (part_owners part). cmpMembersByID env owner (this env)) \<and>
      mergeDMaps env part box (wg db) = Some (None, part', n')"
  then have "checkOwnership env part"
    by (simp add: checkOwnership_def ownersContain_iff)
  with h moveDMapOperation_merged [of env db req box part part' n']
  show "\<exists>db'. moveDMapOperation env db req = Some (StatusOK, db') \<and>
         referencedPartition db' box = Some part' \<and> wg db' = n'"
    by blast
qed


lemma mergeDMaps_S2:
  "mergeDMaps exampleEnv partS2 boxS2 0 =
     Some (None, store_dm partS2 ''m'' \<lparr>storage = [(1, e20), (2, e10)], cache = None\<rparr>, 0)"
  by (simp add: mergeDMaps_def getOrCreateDMap_def exampleEnv_def partS2_def boxS2_def
      mergeCache_def selectVersionForMerge_def sortTwo_def e10_def e20_def)

lemma moveDMapOperation_guards_example:
  "moveDMapOperation notOperableEnv dbS2 reqS2 = Some (ErrorResponse (ErrOther 2), tick dbS2) \<and>
   (\<exists>e. moveDMapOperation exampleEnv dbS4 reqS2 = Some (ErrorResponse e, tick dbS4) \<and>
        errors_Is e ErrInvalidArgument) \<and>
   (\<exists>db'. moveDMapOperation exampleEnv dbS2 reqS2 = Some (StatusOK, db') \<and>
        referencedPartition db' boxS2
          = Some (store_dm partS2 ''m'' \<lparr>storage = [(1, e20), (2, e10)], cache = None\<rparr>) \<and>
        wg db' = 0)"
proof -
  have a: "isOperable notOperableEnv (clock dbS2) = Some (ErrOther 2)"
    by (simp add: notOperableEnv_def)
  have r1: "moveDMapOperation notOperableEnv dbS2 reqS2 = Some (ErrorResponse (ErrOther 2), tick dbS2)"
    by (rule moveDMapOperation_guards [of notOperableEnv dbS2 reqS2,
          THEN conjunct1, THEN spec, THEN mp, OF a])
  have o4: "isOperable exampleEnv (clock dbS4) = None"
    by (simp add: exampleEnv_def)
  have m: "msgpackUnmarshal exampleEnv (msg_value reqS2) = Inr boxS2"
    by (simp add: exampleEnv_def reqS2_def boxS2_def)
  have p4: "referencedPartition dbS4 boxS2 = Some partNotMine"
    by (simp add: referencedPartition_def dbS4_def boxS2_def)
  have n4: "\<not> (\<exists>owner\<in>set (part_owners partNotMine). cmpMembersByID exampleEnv owner (this exampleEnv))"
    by (simp add: partNotMine_def exampleEnv_def node_def)
  have r2: "\<exists>e. moveDMapOperation exampleEnv dbS4 reqS2 = Some (ErrorResponse e, tick dbS4) \<and>
        errors_Is e ErrInvalidArgument"
    by (rule moveDMapOperation_guards [of exampleEnv dbS4 reqS2,
          THEN conjunct2, THEN conjunct2, THEN conjunct1, rule_format,
          OF conjI [OF o4 conjI [OF m conjI [OF p4 n4]]]])
  have o2: "isOperable exampleEnv (clock dbS2) = None"
    by (simp add: exampleEnv_def)
  have p2: "referencedPartition dbS2 boxS2 = Some partS2"
    by (simp add: referencedPartition_def dbS2_def boxS2_def)
  have c2: "\<exists>owner\<in>set (part_owners partS2). cmpMembersByID exampleEnv owner (this exampleEnv)"
    by (simp add: partS2_def exampleEnv_def node_def)
  have g2: "mergeDMaps exampleEnv partS2 boxS2 (wg dbS2) =
     Some (None, store_dm partS2 ''m'' \<lparr>storage = [(1, e20), (2, e10)], cache = None\<rparr>, 0)"
    using mergeDMaps_S2 by (simp add: dbS2_def)
  have r3: "\<exists>db'. moveDMapOperation exampleEnv dbS2 reqS2 = Some (StatusOK, db') \<and>
        referencedPartition db' boxS2
          = Some (store_dm partS2 ''m'' \<lparr>storage = [(1, e20), (2, e10)], cache = None\<rparr>) \<and>
        wg db' = 0"
    by (rule moveDMapOperation_guards [of exampleEnv dbS2 reqS2,
          THEN conjunct2, THEN conjunct2, THEN conjunct2, THEN conjunct2, rule_format,
          OF conjI [OF o2 conjI [OF m conjI [OF p2 conjI [OF c2 g2]]]]])
  from r1 r2 r3 show ?thesis by (intro conjI)
qed

text \<open>C1. An operable node receives a request that unmarshals and names partition 5,
  where the table has the partitions 0 and 1: no partition is referenced, the ownership
  check reads the owners of none, and the handler ends in a runtime panic. It writes no
  error, where the claim has every request answered with an error unless the three checks
  pass.\<close>

theorem moveDMapOperation_unknown_partition_panics:
  "isOperable farEnv (clock dbTwo) = None \<and>
   msgpackUnmarshal farEnv (msg_value reqS2) = Inr boxFar \<and>
   referencedPartition dbTwo boxFar = None \<and>
   moveDMapOperation farEnv dbTwo reqS2 = None"
  by (simp add: moveDMapOperation_def farEnv_def exampleEnv_def referencedPartition_def
      dbTwo_def boxFar_def tick_def)

section \<open>The sender deletes after the acknowledgement\<close>

lemma moveDMap_success:
  assumes "storageExport env (storage dm) = Inr payload"
    and "msgpackMarshal env (newBox part name dm payload) = Inr val"
    and "requestTo env (memberString env owner) \<lparr>msg_op = OpMoveDMap, msg_value = val\<rparr> = Inr resp"
  shows "moveDMap env part name dm owner = (None, part\<lparr>part_m := AList.delete name (part_m part)\<rparr>)"
  using assms by (simp add: moveDMap_def Let_def)

lemma moveDMap_None_D:
  assumes "fst (moveDMap env part name dm owner) = None"
  shows "\<exists>payload val resp. storageExport env (storage dm) = Inr payload \<and>
           msgpackMarshal env (newBox part name dm payload) = Inr val \<and>
           requestTo env (memberString env owner) \<lparr>msg_op = OpMoveDMap, msg_value = val\<rparr> = Inr resp"
  using assms by (auto simp: moveDMap_def Let_def split: sum.splits)

lemma moveDMap_Some_D:
  assumes "fst (moveDMap env part name dm owner) = Some err"
  shows "snd (moveDMap env part name dm owner) = part \<and>
         (storageExport env (storage dm) = Inl err \<or>
          (\<exists>payload. storageExport env (storage dm) = Inr payload \<and>
             msgpackMarshal env (newBox part name dm payload) = Inl err) \<or>
          (\<exists>payload val. storageExport env (storage dm) = Inr payload \<and>
             msgpackMarshal env (newBox part name dm payload) = Inr val \<and>
             requestTo env (memberString env owner) \<lparr>msg_op = OpMoveDMap, msg_value = val\<rparr> = Inl err))"
  using assms by (auto simp: moveDMap_def Let_def split: sum.splits)

text \<open>C2. \<open>moveDMap\<close> returns no error exactly when the export, the encoding and the request
  to the peer all succeed, and then the name is deleted from the partition's map table; when
  it returns an error, that error is the one of the step that failed and the partition is
  unchanged. So a map that was in the table is gone afterwards if and only if the three
  steps succeeded.\<close>

theorem moveDMap_deletes_iff_acknowledged:
  "(fst (moveDMap env part name dm owner) = None \<longleftrightarrow>
      (\<exists>payload val resp. storageExport env (storage dm) = Inr payload \<and>
         msgpackMarshal env (newBox part name dm payload) = Inr val \<and>
         requestTo env (memberString env owner) \<lparr>msg_op = OpMoveDMap, msg_value = val\<rparr> = Inr resp)) \<and>
   (fst (moveDMap env part name dm owner) = None \<longrightarrow>
      snd (moveDMap env part name dm owner) = part\<lparr>part_m := AList.delete name (part_m part)\<rparr> \<and>
      map_of (part_m (snd (moveDMap env part name dm owner))) name = None) \<and>
   (\<forall>err. fst (moveDMap env part name dm owner) = Some err \<longrightarrow>
      snd (moveDMap env part name dm owner) = part \<and>
      (storageExport env (storage dm) = Inl err \<or>
       (\<exists>payload. storageExport env (storage dm) = Inr payload \<and>
          msgpackMarshal env (newBox part name dm payload) = Inl err) \<or>
       (\<exists>payload val. storageExport env (storage dm) = Inr payload \<and>
          msgpackMarshal env (newBox part name dm payload) = Inr val \<and>
          requestTo env (memberString env owner) \<lparr>msg_op = OpMoveDMap, msg_value = val\<rparr> = Inl err))) \<and>
   (map_of (part_m part) name \<noteq> None \<longrightarrow>
      (map_of (part_m (snd (moveDMap env part name dm owner))) name = None
         \<longleftrightarrow> fst (moveDMap env part name dm owner) = None))"
proof (intro conjI allI impI iffI)
  assume "fst (moveDMap env part name dm owner) = None"
  then show "\<exists>payload val resp. storageExport env (storage dm) = Inr payload \<and>
         msgpackMarshal env (newBox part name dm payload) = Inr val \<and>
         requestTo env (memberString env owner) \<lparr>msg_op = OpMoveDMap, msg_value = val\<rparr> = Inr resp"
    by (rule moveDMap_None_D)
next
  assume "\<exists>payload val resp. storageExport env (storage dm) = Inr payload \<and>
         msgpackMarshal env (newBox part name dm payload) = Inr val \<and>
         requestTo env (memberString env owner) \<lparr>msg_op = OpMoveDMap, msg_value = val\<rparr> = Inr resp"
  then show "fst (moveDMap env part name dm owner) = None"
    by (auto simp: moveDMap_success)
next
  assume "fst (moveDMap env part name dm owner) = None"
  from moveDMap_None_D [OF this]
  show "snd (moveDMap env part name dm owner) = part\<lparr>part_m := AList.delete name (part_m part)\<rparr>"
    by (auto simp: moveDMap_success)
next
  assume "fst (moveDMap env part name dm owner) = None"
  from moveDMap_None_D [OF this]
  show "map_of (part_m (snd (moveDMap env part name dm owner))) name = None"
    by (auto simp: moveDMap_success delete_conv')
next
  fix err
  assume "fst (moveDMap env part name dm owner) = Some err"
  from moveDMap_Some_D [OF this]
  show "snd (moveDMap env part name dm owner) = part" by (rule conjunct1)
next
  fix err
  assume "fst (moveDMap env part name dm owner) = Some err"
  from moveDMap_Some_D [OF this]
  show "storageExport env (storage dm) = Inl err \<or>
       (\<exists>payload. storageExport env (storage dm) = Inr payload \<and>
          msgpackMarshal env (newBox part name dm payload) = Inl err) \<or>
       (\<exists>payload val. storageExport env (storage dm) = Inr payload \<and>
          msgpackMarshal env (newBox part name dm payload) = Inr val \<and>
          requestTo env (memberString env owner) \<lparr>msg_op = OpMoveDMap, msg_value = val\<rparr> = Inl err)"
    by (rule conjunct2)
next
  assume p: "map_of (part_m part) name \<noteq> None"
    and r: "map_of (part_m (snd (moveDMap env part name dm owner))) name = None"
  show "fst (moveDMap env part name dm owner) = None"
  proof (cases "fst (moveDMap env part name dm owner)")
    case None
    then show ?thesis .
  next
    case (Some err)
    from moveDMap_Some_D [OF this] have "snd (moveDMap env part name dm owner) = part"
      by (rule conjunct1)
    with p r show ?thesis by simp
  qed
next
  assume "fst (moveDMap env part name dm owner) = None"
  from moveDMap_None_D [OF this]
  show "map_of (part_m (snd (moveDMap env part name dm owner))) name = None"
    by (auto simp: moveDMap_success delete_conv')
qed

theorem moveDMap_deletes_iff_acknowledged_witness:
  "moveDMap exampleEnv partS2 ''m'' dmS2 (node ''b'' 2) = (None, partS2\<lparr>part_m := []\<rparr>) \<and>
   moveDMap unreachableEnv partS2 ''m'' dmS2 (node ''b'' 2) = (Some (ErrOther 9), partS2)"
proof -
  note t1 = moveDMap_deletes_iff_acknowledged [of exampleEnv partS2 "''m''" dmS2 "node ''b'' 2"]
  note t2 = moveDMap_deletes_iff_acknowledged [of unreachableEnv partS2 "''m''" dmS2 "node ''b'' 2"]
  have f1: "fst (moveDMap exampleEnv partS2 ''m'' dmS2 (node ''b'' 2)) = None"
    by (simp add: moveDMap_def exampleEnv_def dmS2_def Let_def)
  have d: "partS2\<lparr>part_m := AList.delete ''m'' (part_m partS2)\<rparr> = partS2\<lparr>part_m := []\<rparr>"
    by (simp add: partS2_def)
  from t1 [THEN conjunct2, THEN conjunct1, THEN mp, OF f1, THEN conjunct1] d
  have s1: "snd (moveDMap exampleEnv partS2 ''m'' dmS2 (node ''b'' 2)) = partS2\<lparr>part_m := []\<rparr>"
    by simp
  have f2: "fst (moveDMap unreachableEnv partS2 ''m'' dmS2 (node ''b'' 2)) = Some (ErrOther 9)"
    by (simp add: moveDMap_def unreachableEnv_def exampleEnv_def dmS2_def Let_def)
  from t2 [THEN conjunct2, THEN conjunct2, THEN conjunct1, THEN spec, THEN mp, OF f2, THEN conjunct1]
  have s2: "snd (moveDMap unreachableEnv partS2 ''m'' dmS2 (node ''b'' 2)) = partS2" .
  show ?thesis
    using f1 s1 f2 s2 by (simp add: prod_eq_iff)
qed

section \<open>When the backup pass runs\<close>

lemma backups_tick [simp]: "backups (tick db) = backups db"
  by (simp add: tick_def)

lemma partitions_tick [simp]: "partitions (tick db) = partitions db"
  by (simp add: tick_def)

lemma logged_tick [simp]: "logged (tick db) = logged db"
  by (simp add: tick_def)

lemma clock_tick [simp]: "clock (tick db) = clock db + 1"
  by (simp add: tick_def)

lemma moveMaps_backups:
  "backups (snd (moveMaps env rsign partID owner maps (part, db))) = backups db"
proof (induction maps arbitrary: part db)
  case Nil
  show ?case by simp
next
  case (Cons p maps)
  obtain name dm where p: "p = (name, dm)" by (cases p)
  obtain err part' where m: "moveDMap env part name dm owner = (err, part')"
    by (cases "moveDMap env part name dm owner")
  show ?case
  proof (cases "rsign = routingSignature env (clock db)")
    case True
    then show ?thesis
      using Cons.IH [of part'] by (simp add: p m Let_def)
  next
    case False
    then show ?thesis by (simp add: p m Let_def)
  qed
qed

lemma rebalancePrimaryLoop_backups:
  "rebalancePrimaryLoop env rsign partID db = Some db' \<Longrightarrow> backups db' = backups db"
proof (induction env rsign partID db rule: rebalancePrimaryLoop.induct)
  case (1 env rsign partID db)
  from "1.prems" show ?case
    apply (subst (asm) rebalancePrimaryLoop.simps)
    apply (auto split: if_splits option.splits prod.splits)
    subgoal using "1.IH"(1) by simp
    subgoal using "1.IH"(2) by simp
    subgoal for part owner part' db3
      using "1.IH"(3) [of part owner part' db3]
        moveMaps_backups [of env rsign partID owner "part_m part" part "tick (tick db)"]
      by simp
    done
qed


lemma rebalancePrimaryPartitions_backups:
  "rebalancePrimaryPartitions env db = Some db' \<Longrightarrow> backups db' = backups db"
  using rebalancePrimaryLoop_backups [of env "routingSignature env (clock db)" 0 "tick db" db']
  by (simp add: rebalancePrimaryPartitions_def)

lemma rebalancer_without_backups:
  assumes "ReplicaCount env \<le> MinimumReplicaCount env" and "rebalancer env db = Some db'"
  shows "backups db' = backups db"
proof (cases "isOperable env (clock db)")
  case (Some err)
  with assms show ?thesis by (auto simp: rebalancer_def)
next
  case None
  with assms have "rebalancePrimaryPartitions env (tick db) = Some db'"
    by (simp add: rebalancer_def split: option.splits)
  from rebalancePrimaryPartitions_backups [OF this] show ?thesis by simp
qed

lemma rebalanceBackupLoop_satisfied:
  assumes "partID < PartitionCount env" and "isAlive env (clock db)"
    and "backups db partID = Some part"
    and "int (length (part_owners part)) = ReplicaCount env - 1"
  shows "rebalanceBackupLoop env rsign partID db = rebalanceBackupLoop env rsign (partID + 1) (tick db)"
  using assms by (subst rebalanceBackupLoop.simps) simp

text \<open>C8. With a replica count that does not exceed the minimum, \<open>rebalancer\<close> is the
  primary pass alone and leaves the backup table as it was; and inside the backup pass a
  partition whose owners list has exactly \<open>ReplicaCount - 1\<close> entries is passed over: the
  loop goes on with the next partition, the state changed only by the observation of
  \<open>isAlive\<close>.\<close>

theorem backup_pass_gated:
  "(ReplicaCount env \<le> MinimumReplicaCount env \<longrightarrow>
      rebalancer env db =
        (case isOperable env (clock db) of
           Some err \<Rightarrow> Some (tick db)
         | None \<Rightarrow> rebalancePrimaryPartitions env (tick db))) \<and>
   (\<forall>db'. ReplicaCount env \<le> MinimumReplicaCount env \<and> rebalancer env db = Some db' \<longrightarrow>
      backups db' = backups db) \<and>
   (\<forall>part. partID < PartitionCount env \<and> isAlive env (clock db) \<and>
      backups db partID = Some part \<and>
      int (length (part_owners part)) = ReplicaCount env - 1 \<longrightarrow>
      rebalanceBackupLoop env rsign partID db
        = rebalanceBackupLoop env rsign (partID + 1) (tick db))"
proof (intro conjI allI impI)
  assume "ReplicaCount env \<le> MinimumReplicaCount env"
  then show "rebalancer env db =
        (case isOperable env (clock db) of
           Some err \<Rightarrow> Some (tick db)
         | None \<Rightarrow> rebalancePrimaryPartitions env (tick db))"
    by (simp add: rebalancer_def split: option.splits)
next
  fix db'
  assume "ReplicaCount env \<le> MinimumReplicaCount env \<and> rebalancer env db = Some db'"
  then show "backups db' = backups db"
    using rebalancer_without_backups by blast
next
  fix part
  assume "partID < PartitionCount env \<and> isAlive env (clock db) \<and>
      backups db partID = Some part \<and>
      int (length (part_owners part)) = ReplicaCount env - 1"
  then show "rebalanceBackupLoop env rsign partID db
        = rebalanceBackupLoop env rsign (partID + 1) (tick db)"
    using rebalanceBackupLoop_satisfied by blast
qed

lemma rebalancePrimary_dbTwo:
  "rebalancePrimaryPartitions oneReplicaEnv (tick dbTwo) = Some (dbTwo\<lparr>clock := 6\<rparr>)"
  by (simp add: rebalancePrimaryPartitions_def rebalancePrimaryLoop.simps oneReplicaEnv_def
      exampleEnv_def dbTwo_def tick_def partS2_def partEmpty_def part_length_def part_owner_def
      node_def)

theorem backup_pass_gated_witness:
  "rebalancer oneReplicaEnv dbTwo = Some (dbTwo\<lparr>clock := 6\<rparr>) \<and>
   rebalanceBackupLoop exampleEnv 7 0 dbTwo = rebalanceBackupLoop exampleEnv 7 (0 + 1) (tick dbTwo)"
proof -
  note t1 = backup_pass_gated [of oneReplicaEnv dbTwo 0 7]
  note t2 = backup_pass_gated [of exampleEnv dbTwo 0 7]
  have rc: "ReplicaCount oneReplicaEnv \<le> MinimumReplicaCount oneReplicaEnv"
    by (simp add: oneReplicaEnv_def exampleEnv_def)
  have op: "isOperable oneReplicaEnv (clock dbTwo) = None"
    by (simp add: oneReplicaEnv_def exampleEnv_def)
  from t1 [THEN conjunct1, THEN mp, OF rc]
  have r1: "rebalancer oneReplicaEnv dbTwo = Some (dbTwo\<lparr>clock := 6\<rparr>)"
    by (simp add: op rebalancePrimary_dbTwo)
  have a: "(0::u64) < PartitionCount exampleEnv" by (simp add: exampleEnv_def)
  have b: "isAlive exampleEnv (clock dbTwo)" by (simp add: exampleEnv_def)
  have c: "backups dbTwo 0 = Some backupTwoOwners" by (simp add: dbTwo_def)
  have d: "int (length (part_owners backupTwoOwners)) = ReplicaCount exampleEnv - 1"
    by (simp add: backupTwoOwners_def exampleEnv_def)
  have r2: "rebalanceBackupLoop exampleEnv 7 0 dbTwo = rebalanceBackupLoop exampleEnv 7 (0 + 1) (tick dbTwo)"
    by (rule t2 [THEN conjunct2, THEN conjunct2, rule_format, OF conjI [OF a conjI [OF b conjI [OF c d]]]])
  from r1 r2 show ?thesis ..
qed

section \<open>A change of the routing signature ends the moves\<close>

lemma wg_tick2 [simp]: "wg (tick db) = wg db"
  by (simp add: tick_def)

lemma rebalancePrimaryLoop_breaks:
  assumes "partID < PartitionCount env" and "isAlive env (clock db)"
    and "routingSignature env (clock db + 1) \<noteq> rsign"
  shows "rebalancePrimaryLoop env rsign partID db = Some (tick (tick db))"
  using assms by (subst rebalancePrimaryLoop.simps) auto

lemma moveMaps_stops:
  assumes "routingSignature env (clock db) \<noteq> rsign"
  shows "moveMaps env rsign partID owner ((name, dm) # rest) (part, db)
           = moveMaps env rsign partID owner [(name, dm)] (part, db)"
  using assms by (auto simp: Let_def split: prod.splits)

lemma same_but_clock_tick [simp]: "same_but_clock (tick db) db"
  by (simp add: same_but_clock_def)

lemma same_but_clock_trans:
  "same_but_clock c b \<Longrightarrow> same_but_clock b a \<Longrightarrow> same_but_clock c a"
  by (simp add: same_but_clock_def)

lemma moveToIds_changed:
  assumes "\<forall>t\<ge>clock db. routingSignature env t \<noteq> rsign"
  shows "fst (moveToIds env rsign partID ids (part, db)) = part \<and>
         same_but_clock (snd (moveToIds env rsign partID ids (part, db))) db"
proof (cases ids)
  case Nil
  then show ?thesis by (simp add: same_but_clock_def)
next
  case (Cons i rest)
  from assms have "routingSignature env (clock db + 1) \<noteq> rsign" by simp
  with Cons show ?thesis by (auto simp: same_but_clock_def)
qed

lemma rebalancePrimaryLoop_changed:
  assumes "\<forall>t\<ge>clock db. routingSignature env t \<noteq> rsign"
    and "rebalancePrimaryLoop env rsign partID db = Some db'"
  shows "same_but_clock db' db"
proof -
  from assms(1) have "routingSignature env (clock db + 1) \<noteq> rsign" by simp
  with assms(2) show ?thesis
    by (subst (asm) rebalancePrimaryLoop.simps) (auto simp: same_but_clock_def split: if_splits)
qed

lemma rebalanceBackupLoop_changed:
  assumes "\<forall>t\<ge>clock db. routingSignature env t \<noteq> rsign"
    and "rebalanceBackupLoop env rsign partID db = Some db'"
  shows "same_but_clock db' db"
  using assms
proof (induction env rsign partID db rule: rebalanceBackupLoop.induct)
  case (1 env rsign partID db)
  show ?case
  proof (cases "partID < PartitionCount env \<and> isAlive env (clock db)")
    case False
    with "1.prems"(2) show ?thesis
      by (subst (asm) rebalanceBackupLoop.simps) (auto simp: same_but_clock_def split: if_splits)
  next
    case True
    then have lt: "partID < PartitionCount env" and al: "isAlive env (clock db)" by simp_all
    from "1.prems"(1) have later: "\<forall>t\<ge>clock (tick db). routingSignature env t \<noteq> rsign" by simp
    show ?thesis
    proof (cases "backups db partID")
      case None
      with lt al "1.prems"(2) show ?thesis
        by (subst (asm) rebalanceBackupLoop.simps) simp
    next
      case (Some part)
      note pt = this
      show ?thesis
      proof (cases "part_length part = 0 \<or> int (length (part_owners part)) = ReplicaCount env - 1")
        case True
        with lt al pt "1.prems"(2)
        have r: "rebalanceBackupLoop env rsign (partID + 1) (tick db) = Some db'"
          by (subst (asm) rebalanceBackupLoop.simps) (auto split: if_splits)
        from True have "same_but_clock db' (tick db)"
        proof
          assume e: "part_length part = 0"
          from "1.IH"(1) [OF lt _ pt e later r] al show ?thesis by simp
        next
          assume e: "int (length (part_owners part)) = ReplicaCount env - 1"
          show ?thesis
          proof (cases "part_length part = 0")
            case True
            from "1.IH"(1) [OF lt _ pt True later r] al show ?thesis by simp
          next
            case False
            from "1.IH"(2) [OF lt _ pt False e later r] al show ?thesis by simp
          qed
        qed
        then show ?thesis
          using same_but_clock_trans [of db' "tick db" db] by simp
      next
        case False
        then have ne: "part_length part \<noteq> 0"
          and no: "int (length (part_owners part)) \<noteq> ReplicaCount env - 1" by simp_all
        show ?thesis
        proof (cases "backupIds env (part_owners part)")
          case None
          with lt al pt ne no "1.prems"(2) show ?thesis
            by (subst (asm) rebalanceBackupLoop.simps) simp
        next
          case (Some ids)
          obtain part' db2 where mv: "moveToIds env rsign partID ids (part, tick db) = (part', db2)"
            by (cases "moveToIds env rsign partID ids (part, tick db)")
          from moveToIds_changed [OF later, of partID ids part] mv
          have p': "part' = part" and s2: "same_but_clock db2 (tick db)" by simp_all
          let ?db3 = "db2\<lparr>backups := (backups db2)(partID \<mapsto> part')\<rparr>"
          from s2 pt p' have b3: "backups ?db3 = backups db"
            by (auto simp: same_but_clock_def)
          with s2 have s3: "same_but_clock ?db3 db"
            by (simp add: same_but_clock_def)
          then have l3: "\<forall>t\<ge>clock ?db3. routingSignature env t \<noteq> rsign"
            using "1.prems"(1) by (simp add: same_but_clock_def)
          from lt al pt ne no Some mv "1.prems"(2)
          have r: "rebalanceBackupLoop env rsign (partID + 1) ?db3 = Some db'"
            by (subst (asm) rebalanceBackupLoop.simps) simp
          from "1.IH"(3) [OF lt _ pt ne no Some mv [symmetric] l3 r] al
          have "same_but_clock db' ?db3" by simp
          from this s3 show ?thesis by (rule same_but_clock_trans)
        qed
      qed
    qed
  qed
qed


text \<open>C4. With \<open>rsign\<close> the signature taken at the start of the pass: the primary loop
  that loads a different signature at a partition boundary ends there; the iteration over
  the maps of a partition, in either pass, ends after the map whose visitor loads a
  different signature; and once every later load differs from \<open>rsign\<close>, the loop over the
  recorded ids, the rest of the primary loop and the rest of the backup loop log no move
  and change no partition.\<close>

theorem no_move_after_routing_change:
  "(partID < PartitionCount env \<and> isAlive env (clock db) \<and>
      routingSignature env (clock db + 1) \<noteq> rsign \<longrightarrow>
      rebalancePrimaryLoop env rsign partID db = Some (tick (tick db))) \<and>
   (routingSignature env (clock db) \<noteq> rsign \<longrightarrow>
      moveMaps env rsign partID owner ((name, dm) # rest) (part, db)
        = moveMaps env rsign partID owner [(name, dm)] (part, db)) \<and>
   ((\<forall>t\<ge>clock db. routingSignature env t \<noteq> rsign) \<longrightarrow>
      fst (moveToIds env rsign partID ids (part, db)) = part \<and>
      same_but_clock (snd (moveToIds env rsign partID ids (part, db))) db) \<and>
   (\<forall>db'. (\<forall>t\<ge>clock db. routingSignature env t \<noteq> rsign) \<and>
      rebalancePrimaryLoop env rsign partID db = Some db' \<longrightarrow> same_but_clock db' db) \<and>
   (\<forall>db'. (\<forall>t\<ge>clock db. routingSignature env t \<noteq> rsign) \<and>
      rebalanceBackupLoop env rsign partID db = Some db' \<longrightarrow> same_but_clock db' db)"
proof (intro conjI allI impI)
  assume "partID < PartitionCount env \<and> isAlive env (clock db) \<and>
      routingSignature env (clock db + 1) \<noteq> rsign"
  then show "rebalancePrimaryLoop env rsign partID db = Some (tick (tick db))"
    by (simp add: rebalancePrimaryLoop_breaks)
next
  assume "routingSignature env (clock db) \<noteq> rsign"
  then show "moveMaps env rsign partID owner ((name, dm) # rest) (part, db)
        = moveMaps env rsign partID owner [(name, dm)] (part, db)"
    by (rule moveMaps_stops)
next
  assume a: "\<forall>t\<ge>clock db. routingSignature env t \<noteq> rsign"
  from moveToIds_changed [OF a]
  show "fst (moveToIds env rsign partID ids (part, db)) = part" by (rule conjunct1)
next
  assume a: "\<forall>t\<ge>clock db. routingSignature env t \<noteq> rsign"
  from moveToIds_changed [OF a]
  show "same_but_clock (snd (moveToIds env rsign partID ids (part, db))) db" by (rule conjunct2)
next
  fix db'
  assume a: "(\<forall>t\<ge>clock db. routingSignature env t \<noteq> rsign) \<and>
      rebalancePrimaryLoop env rsign partID db = Some db'"
  show "same_but_clock db' db"
    by (rule rebalancePrimaryLoop_changed [OF a [THEN conjunct1] a [THEN conjunct2]])
next
  fix db'
  assume a: "(\<forall>t\<ge>clock db. routingSignature env t \<noteq> rsign) \<and>
      rebalanceBackupLoop env rsign partID db = Some db'"
  show "same_but_clock db' db"
    by (rule rebalanceBackupLoop_changed [OF a [THEN conjunct1] a [THEN conjunct2]])
qed

lemma changed_later: "\<forall>t\<ge>clock dbChanged. routingSignature changedEnv t \<noteq> 7"
  by (simp add: dbChanged_def changedEnv_def)

lemma backupIds_changed: "backupIds changedEnv (part_owners backupTwoOwners) = Some [3]"
  by (simp add: backupIds_def changedEnv_def exampleEnv_def backupTwoOwners_def node_def
      collectIds.simps)

lemma rebalanceBackupLoop_dbChanged:
  "\<exists>db'. rebalanceBackupLoop changedEnv 7 0 dbChanged = Some db'"
  by (simp add: rebalanceBackupLoop.simps [of changedEnv] backupIds_changed dbChanged_def dbTwo_def
      part_length_def tick_def partEmpty_def)
     (simp add: changedEnv_def exampleEnv_def backupTwoOwners_def)


theorem no_move_after_routing_change_witness:
  "rebalancePrimaryLoop changedEnv 7 0 (dbTwo\<lparr>clock := 3\<rparr>) = Some (tick (tick (dbTwo\<lparr>clock := 3\<rparr>))) \<and>
   moveMaps changedEnv 7 0 (node ''b'' 2) [(''m'', dmS2), (''n'', dmS2)] (partS2, dbChanged)
     = moveMaps changedEnv 7 0 (node ''b'' 2) [(''m'', dmS2)] (partS2, dbChanged) \<and>
   fst (moveToIds changedEnv 7 0 [3] (backupTwoOwners, dbChanged)) = backupTwoOwners \<and>
   (\<exists>db'. rebalanceBackupLoop changedEnv 7 0 dbChanged = Some db' \<and> same_but_clock db' dbChanged)"
proof -
  have a: "(0::u64) < PartitionCount changedEnv \<and> isAlive changedEnv (clock (dbTwo\<lparr>clock := 3\<rparr>)) \<and>
      routingSignature changedEnv (clock (dbTwo\<lparr>clock := 3\<rparr>) + 1) \<noteq> 7"
    by (simp add: changedEnv_def exampleEnv_def)
  have r1: "rebalancePrimaryLoop changedEnv 7 0 (dbTwo\<lparr>clock := 3\<rparr>)
      = Some (tick (tick (dbTwo\<lparr>clock := 3\<rparr>)))"
    by (rule no_move_after_routing_change [of 0 changedEnv "dbTwo\<lparr>clock := 3\<rparr>" 7,
          THEN conjunct1, THEN mp, OF a])
  have b: "routingSignature changedEnv (clock dbChanged) \<noteq> 7"
    by (simp add: changedEnv_def dbChanged_def)
  have r2: "moveMaps changedEnv 7 0 (node ''b'' 2) [(''m'', dmS2), (''n'', dmS2)] (partS2, dbChanged)
     = moveMaps changedEnv 7 0 (node ''b'' 2) [(''m'', dmS2)] (partS2, dbChanged)"
    by (rule no_move_after_routing_change [of 0 changedEnv dbChanged 7,
          THEN conjunct2, THEN conjunct1, THEN mp, OF b])
  have r3: "fst (moveToIds changedEnv 7 0 [3] (backupTwoOwners, dbChanged)) = backupTwoOwners"
    by (rule no_move_after_routing_change [of 0 changedEnv dbChanged 7,
          THEN conjunct2, THEN conjunct2, THEN conjunct1, THEN mp, OF changed_later,
          THEN conjunct1])
  from rebalanceBackupLoop_dbChanged obtain db' where
    e: "rebalanceBackupLoop changedEnv 7 0 dbChanged = Some db'" ..
  have "same_but_clock db' dbChanged"
    by (rule no_move_after_routing_change [of 0 changedEnv dbChanged 7,
          THEN conjunct2, THEN conjunct2, THEN conjunct2, THEN conjunct2, rule_format,
          OF conjI [OF changed_later e]])
  with e have r4: "\<exists>db'. rebalanceBackupLoop changedEnv 7 0 dbChanged = Some db' \<and>
      same_but_clock db' dbChanged" by blast
  from r1 r2 r3 r4 show ?thesis by (intro conjI)
qed

section \<open>Merging the same payload twice\<close>

lemma winner_of_stable:
  assumes "sorts_pair env"
  shows "winner_of env (Some (winner_of env c e)) e = winner_of env c e"
proof -
  have same: "winner_of env (Some e) e = e"
  proof -
    from assms obtain v vs where
      "sortVersions env [\<lparr>version_entry = e\<rparr>, \<lparr>version_entry = e\<rparr>] = v # vs"
      and "v = \<lparr>version_entry = e\<rparr> \<or> v = \<lparr>version_entry = e\<rparr>"
      unfolding sorts_pair_def by blast
    then show ?thesis by (auto simp: winner_of_def)
  qed
  show ?thesis
  proof (cases c)
    case None
    then show ?thesis using same by (simp add: winner_of_def)
  next
    case (Some cur)
    from assms obtain v vs where
      s: "sortVersions env [\<lparr>version_entry = cur\<rparr>, \<lparr>version_entry = e\<rparr>] = v # vs"
      and v: "v = \<lparr>version_entry = cur\<rparr> \<or> v = \<lparr>version_entry = e\<rparr>"
      unfolding sorts_pair_def by blast
    from v show ?thesis
    proof
      assume "v = \<lparr>version_entry = cur\<rparr>"
      with s Some have "winner_of env c e = cur" by (simp add: winner_of_def)
      then show ?thesis using Some by simp
    next
      assume "v = \<lparr>version_entry = e\<rparr>"
      with s Some have "winner_of env c e = e" by (simp add: winner_of_def)
      then show ?thesis using same by simp
    qed
  qed
qed

lemma winner_of_same:
  assumes "sorts_pair env"
  shows "winner_of env (Some e) e = e"
  using winner_of_stable [OF assms, of None e] by (simp add: winner_of_def)

lemma selectVersionForMerge_contract:
  assumes "fragment_contract env contents" and "sorts_pair env"
  shows "selectVersionForMerge env s k e = Some (Inr (winner_of env (contents s k) e))"
proof (cases "contents s k")
  case None
  with assms(1) have "storageGet env s k = Inl ErrKeyNotFound"
    by (simp add: fragment_contract_def)
  with None show ?thesis by (simp add: selectVersionForMerge_def winner_of_def)
next
  case (Some cur)
  with assms(1) have g: "storageGet env s k = Inr cur"
    by (simp add: fragment_contract_def)
  from assms(2) obtain v vs where
    "sortVersions env [\<lparr>version_entry = cur\<rparr>, \<lparr>version_entry = e\<rparr>] = v # vs"
    unfolding sorts_pair_def by blast
  with g Some show ?thesis by (simp add: selectVersionForMerge_def winner_of_def)
qed

lemma mergeRange_contract:
  assumes "fragment_contract env contents" and "sorts_pair env"
  shows "\<exists>s' n'. mergeRange env entries s n = Some (None, s', n') \<and>
           contents s' = mergeMap env entries (contents s)"
proof (induction entries arbitrary: s n)
  case Nil
  show ?case by simp
next
  case (Cons p rest)
  obtain k e where p: "p = (k, e)" by (cases p)
  let ?w = "winner_of env (contents s k) e"
  have sel: "selectVersionForMerge env s k e = Some (Inr ?w)"
    by (rule selectVersionForMerge_contract [OF assms])
  obtain r s1 where put: "storagePut env s k ?w = (r, s1)" by (cases "storagePut env s k ?w")
  from assms(1) have "(fst (storagePut env s k ?w) = None \<or> fst (storagePut env s k ?w) = Some ErrFragmented) \<and>
      contents (snd (storagePut env s k ?w)) = (contents s)(k \<mapsto> ?w)"
    unfolding fragment_contract_def by blast
  with put have r: "r = None \<or> r = Some ErrFragmented" and c1: "contents s1 = (contents s)(k \<mapsto> ?w)"
    by simp_all
  have mm: "mergeMap env (p # rest) (contents s) = mergeMap env rest (contents s1)"
    by (simp add: p c1)
  from r show ?case
  proof
    assume rn: "r = None"
    from Cons.IH [of s1 n] obtain s' n' where
      a: "mergeRange env rest s1 n = Some (None, s', n')"
      and b: "contents s' = mergeMap env rest (contents s1)" by blast
    have "mergeRange env (p # rest) s n = mergeRange env rest s1 n"
      by (simp add: p sel put rn)
    with a b mm show ?thesis by simp
  next
    assume rn: "r = Some ErrFragmented"
    from Cons.IH [of s1 "n + 1"] obtain s' n' where
      a: "mergeRange env rest s1 (n + 1) = Some (None, s', n')"
      and b: "contents s' = mergeMap env rest (contents s1)" by blast
    have "mergeRange env (p # rest) s n = mergeRange env rest s1 (n + 1)"
      by (simp add: p sel put rn)
    with a b mm show ?thesis by simp
  qed
qed

lemma mergeMap_distinct:
  assumes "distinct (map fst entries)"
  shows "mergeMap env entries c k =
           (case map_of entries k of None \<Rightarrow> c k | Some e \<Rightarrow> Some (winner_of env (c k) e))"
  using assms
proof (induction entries arbitrary: c)
  case Nil
  show ?case by simp
next
  case (Cons p rest)
  obtain k' e' where p: "p = (k', e')" by (cases p)
  from Cons.prems p have d: "distinct (map fst rest)" and n: "k' \<notin> fst ` set rest" by auto
  from n have m: "map_of rest k' = None" by (simp add: map_of_eq_None_iff)
  let ?c = "c(k' \<mapsto> winner_of env (c k') e')"
  have step: "mergeMap env (p # rest) c k = mergeMap env rest ?c k"
    by (simp add: p)
  have ih: "mergeMap env rest ?c k =
      (case map_of rest k of None \<Rightarrow> ?c k | Some e \<Rightarrow> Some (winner_of env (?c k) e))"
    by (rule Cons.IH [OF d])
  show ?case
  proof (cases "k = k'")
    case True
    with m ih step show ?thesis by (simp add: p)
  next
    case False
    with ih step show ?thesis by (simp add: p split: option.splits)
  qed
qed

lemma mergeMap_idem:
  assumes "sorts_pair env" and "distinct (map fst entries)"
  shows "mergeMap env entries (mergeMap env entries c) = mergeMap env entries c"
proof
  fix k
  show "mergeMap env entries (mergeMap env entries c) k = mergeMap env entries c k"
    by (simp add: mergeMap_distinct [OF assms(2)] winner_of_stable [OF assms(1)]
        split: option.splits)
qed

lemma mergeMap_own:
  assumes "sorts_pair env" and "distinct (map fst entries)"
  shows "mergeMap env entries (map_of entries) = map_of entries"
proof
  fix k
  show "mergeMap env entries (map_of entries) k = map_of entries k"
    by (simp add: mergeMap_distinct [OF assms(2)] winner_of_same [OF assms(1)]
        split: option.splits)
qed

lemma mergeMap_keeps:
  "c k \<noteq> None \<Longrightarrow> mergeMap env entries c k \<noteq> None"
  by (induction entries arbitrary: c) auto

lemma mergeAccessLog_idem: "mergeAccessLog (mergeAccessLog loc inc) inc = mergeAccessLog loc inc"
proof -
  have present: "\<And>l. \<forall>p\<in>set inc. map_of l (fst p) \<noteq> None \<Longrightarrow> mergeAccessLog l inc = l"
  proof -
    fix l :: accesslog
    show "\<forall>p\<in>set inc. map_of l (fst p) \<noteq> None \<Longrightarrow> mergeAccessLog l inc = l"
      by (induction inc) (auto split: option.splits)
  qed
  have "\<forall>p\<in>set inc. map_of (mergeAccessLog loc inc) (fst p) \<noteq> None"
  proof
    fix p assume "p \<in> set inc"
    then have "map_of inc (fst p) \<noteq> None"
      by (metis map_of_eq_None_iff image_eqI)
    then show "map_of (mergeAccessLog loc inc) (fst p) \<noteq> None"
      by (simp add: map_of_mergeAccessLog split: option.splits)
  qed
  from present [OF this] show ?thesis .
qed

lemma mergeCache_idem: "mergeCache (mergeCache c inc) inc = mergeCache c inc"
  by (simp add: mergeCache_def mergeAccessLog_idem split: option.splits)


lemma getOrCreateDMap_stored:
  "getOrCreateDMap env (store_dm part name dm) name = Inr dm"
  by (simp add: getOrCreateDMap_def map_of_store_dm)

lemma update_update_view:
  assumes "contents (storage b) = contents (storage a)" and "cache b = cache a"
  shows "map (\<lambda>(name, dm). (name, contents (storage dm), cache dm)) (AList.update k b (AList.update k a l))
       = map (\<lambda>(name, dm). (name, contents (storage dm), cache dm)) (AList.update k a l)"
  using assms by (induction l) auto

lemma dmap_view_store_twice:
  assumes "contents (storage b) = contents (storage a)" and "cache b = cache a"
  shows "dmap_view contents (store_dm (store_dm part name a) name b)
       = dmap_view contents (store_dm part name a)"
  using update_update_view [OF assms] by (simp add: dmap_view_def store_dm_def)

lemma mergeDMaps_contract:
  assumes "fragment_contract env contents" and "sorts_pair env"
    and "getOrCreateDMap env part (Name data) = Inr dm"
    and "storageImport env (Payload data) = Inr str"
  shows "\<exists>s' n'. mergeDMaps env part data n =
            Some (None, store_dm part (Name data)
               (dm\<lparr>cache := mergeCache (cache dm) (AccessLog data), storage := s'\<rparr>), n') \<and>
           contents s' = (if contents (storage dm) = Map.empty then contents str
              else mergeMap env (storageRange env str) (contents (storage dm)))"
proof (cases "contents (storage dm) = Map.empty")
  case True
  with assms(1) have "storageLen env (storage dm) = 0"
    unfolding fragment_contract_def by blast
  with assms(3,4) have "mergeDMaps env part data n =
      Some (None, store_dm part (Name data)
         (dm\<lparr>cache := mergeCache (cache dm) (AccessLog data), storage := str\<rparr>), n)"
    by (simp add: mergeDMaps_def Let_def)
  with True show ?thesis by auto
next
  case False
  with assms(1) have l: "storageLen env (storage dm) \<noteq> 0"
    unfolding fragment_contract_def by blast
  from mergeRange_contract [OF assms(1,2), of "storageRange env str" "storage dm" n]
  obtain s' n' where
    a: "mergeRange env (storageRange env str) (storage dm) n = Some (None, s', n')"
    and b: "contents s' = mergeMap env (storageRange env str) (contents (storage dm))" by blast
  from assms(3,4) l a have "mergeDMaps env part data n =
      Some (None, store_dm part (Name data)
         (dm\<lparr>cache := mergeCache (cache dm) (AccessLog data), storage := s'\<rparr>), n')"
    by (simp add: mergeDMaps_def Let_def)
  with False b show ?thesis by auto
qed

lemma merged_contents_fixed:
  assumes "fragment_contract env contents" and "sorts_pair env"
    and "c1 = (if c0 = Map.empty then contents str else mergeMap env (storageRange env str) c0)"
  shows "(if c1 = Map.empty then contents str else mergeMap env (storageRange env str) c1) = c1"
proof -
  from assms(1) have m: "map_of (storageRange env str) = contents str"
    and d: "distinct (map fst (storageRange env str))"
    unfolding fragment_contract_def by blast+
  show ?thesis
  proof (cases "c0 = Map.empty")
    case True
    with assms(3) have c1: "c1 = contents str" by simp
    from mergeMap_own [OF assms(2) d] m
    have "mergeMap env (storageRange env str) (contents str) = contents str" by simp
    with c1 show ?thesis by simp
  next
    case False
    with assms(3) have c1: "c1 = mergeMap env (storageRange env str) c0" by simp
    from False obtain k where "c0 k \<noteq> None" by fastforce
    then have "mergeMap env (storageRange env str) c0 k \<noteq> None"
      by (rule mergeMap_keeps)
    with c1 have "c1 \<noteq> Map.empty"
      by auto
    with c1 mergeMap_idem [OF assms(2) d, of c0] show ?thesis by simp
  qed
qed

text \<open>C3. For a storage engine that keeps the contract of a fragment and a \<open>sortVersions\<close>
  that returns the two versions in some order, for every partition and every payload:
  \<open>mergeDMaps\<close> applied to the result of \<open>mergeDMaps\<close> with the same payload leaves every
  DataMap of the partition with the same storage contents and the same cache (access log)
  as the first application left it.\<close>

theorem mergeDMaps_idempotent:
  assumes "fragment_contract env contents" and "sorts_pair env"
  shows "\<exists>e1 part1 n1 e2 part2 n2.
           mergeDMaps env part data n = Some (e1, part1, n1) \<and>
           mergeDMaps env part1 data n1 = Some (e2, part2, n2) \<and>
           dmap_view contents part2 = dmap_view contents part1"
proof (cases "getOrCreateDMap env part (Name data)")
  case (Inl err)
  then have "mergeDMaps env part data n = Some (Some err, part, n)"
    by (simp add: mergeDMaps_def)
  then show ?thesis by blast
next
  case (Inr dm)
  note g = this
  show ?thesis
  proof (cases "storageImport env (Payload data)")
    case (Inl err)
    let ?p1 = "store_dm part (Name data) dm"
    from g Inl have a: "mergeDMaps env part data n = Some (Some err, ?p1, n)"
      by (simp add: mergeDMaps_def)
    from Inl have b: "mergeDMaps env ?p1 data n = Some (Some err, store_dm ?p1 (Name data) dm, n)"
      by (simp add: mergeDMaps_def getOrCreateDMap_stored)
    have "dmap_view contents (store_dm ?p1 (Name data) dm) = dmap_view contents ?p1"
      by (rule dmap_view_store_twice) simp_all
    with a b show ?thesis by blast
  next
    case (Inr str)
    let ?C = "mergeCache (cache dm) (AccessLog data)"
    from mergeDMaps_contract [OF assms g Inr, of n] obtain s1 n1 where
      a: "mergeDMaps env part data n =
            Some (None, store_dm part (Name data) (dm\<lparr>cache := ?C, storage := s1\<rparr>), n1)"
      and c1: "contents s1 = (if contents (storage dm) = Map.empty then contents str
              else mergeMap env (storageRange env str) (contents (storage dm)))" by blast
    let ?a = "dm\<lparr>cache := ?C, storage := s1\<rparr>"
    let ?p1 = "store_dm part (Name data) ?a"
    have g1: "getOrCreateDMap env ?p1 (Name data) = Inr ?a"
      by (rule getOrCreateDMap_stored)
    from mergeDMaps_contract [OF assms g1 Inr, of n1] obtain s2 n2 where
      b: "mergeDMaps env ?p1 data n1 =
            Some (None, store_dm ?p1 (Name data)
              (?a\<lparr>cache := mergeCache (cache ?a) (AccessLog data), storage := s2\<rparr>), n2)"
      and c2: "contents s2 = (if contents (storage ?a) = Map.empty then contents str
              else mergeMap env (storageRange env str) (contents (storage ?a)))" by blast
    let ?b = "?a\<lparr>cache := mergeCache (cache ?a) (AccessLog data), storage := s2\<rparr>"
    from c2 have c2': "contents s2 = (if contents s1 = Map.empty then contents str
              else mergeMap env (storageRange env str) (contents s1))" by simp
    have "contents s2 = contents s1"
      by (rule trans [OF c2' merged_contents_fixed [OF assms c1]])
    then have "dmap_view contents (store_dm ?p1 (Name data) ?b) = dmap_view contents ?p1"
      by (intro dmap_view_store_twice) (simp_all add: mergeCache_idem)
    with a b show ?thesis by blast
  qed
qed


lemma clearjunk_Nil_iff: "AList.clearjunk al = [] \<longleftrightarrow> al = []"
  by (cases al) auto

lemma exampleEnv_contract: "fragment_contract exampleEnv map_of"
  unfolding fragment_contract_def
proof (intro conjI allI)
  fix s :: frag and k
  show "storageGet exampleEnv s k =
      (case map_of s k of None \<Rightarrow> Inl ErrKeyNotFound | Some e \<Rightarrow> Inr e)"
    by (simp add: exampleEnv_def)
next
  fix s :: frag
  show "(storageLen exampleEnv s = 0) = (map_of s = Map.empty)"
    by (simp add: exampleEnv_def clearjunk_Nil_iff)
next
  fix s :: frag
  show "map_of (storageRange exampleEnv s) = map_of s"
    by (simp add: exampleEnv_def map_of_clearjunk)
next
  fix s :: frag
  show "distinct (map fst (storageRange exampleEnv s))"
    by (simp add: exampleEnv_def distinct_clearjunk)
next
  fix s :: frag and k e
  show "fst (storagePut exampleEnv s k e) = None \<or> fst (storagePut exampleEnv s k e) = Some ErrFragmented"
    by (simp add: exampleEnv_def)
next
  fix s :: frag and k e
  show "map_of (snd (storagePut exampleEnv s k e)) = (map_of s)(k \<mapsto> e)"
    by (simp add: exampleEnv_def update_conv')
qed

lemma exampleEnv_sorts: "sorts_pair exampleEnv"
  by (simp add: sorts_pair_def exampleEnv_def sortTwo_def)

lemma mergeDMaps_S2_first:
  "mergeDMaps exampleEnv partS2 boxS2 0 = Some (None, partMerged, 0)"
  by (simp add: mergeDMaps_def getOrCreateDMap_def exampleEnv_def partS2_def boxS2_def
      mergeCache_def selectVersionForMerge_def sortTwo_def e10_def e20_def partMerged_def)

lemma mergeDMaps_S2_again:
  "mergeDMaps exampleEnv partMerged boxS2 0 = Some (None, partMerged, 0)"
  by (simp add: mergeDMaps_def getOrCreateDMap_def exampleEnv_def partS2_def boxS2_def
      mergeCache_def selectVersionForMerge_def sortTwo_def e10_def e20_def partMerged_def
      store_dm_def)

theorem mergeDMaps_idempotent_witness:
  "fragment_contract exampleEnv map_of \<and> sorts_pair exampleEnv \<and>
   mergeDMaps exampleEnv partS2 boxS2 0 = Some (None, partMerged, 0) \<and>
   mergeDMaps exampleEnv partMerged boxS2 0 = Some (None, partMerged, 0) \<and>
   (\<exists>e1 part1 n1 e2 part2 n2.
      mergeDMaps exampleEnv partS2 boxS2 0 = Some (e1, part1, n1) \<and>
      mergeDMaps exampleEnv part1 boxS2 n1 = Some (e2, part2, n2) \<and>
      dmap_view map_of part2 = dmap_view map_of part1)"
  using mergeDMaps_idempotent [OF exampleEnv_contract exampleEnv_sorts, of partS2 boxS2 0]
    exampleEnv_contract exampleEnv_sorts mergeDMaps_S2_first mergeDMaps_S2_again
  by (intro conjI)

end
